theory Spec2Isabelle
  imports Complex_Main "HOL-Library.Multiset"
begin

section \<open>Numbers\<close>

text \<open>
  \<^verbatim>\<open>unsigned int\<close> is a 32-bit counter: every conversion from \<^verbatim>\<open>size_t\<close> and every
  \<^verbatim>\<open>unsigned int\<close> sum or product is taken modulo \<open>2 ^ 32\<close>. Container sizes
  (\<^verbatim>\<open>size_t\<close>) are natural numbers.
\<close>

definition u32 :: "nat \<Rightarrow> nat" where
  "u32 n = n mod 4294967296"

text \<open>
  A \<^verbatim>\<open>double\<close> is a real number or NaN. The comparisons \<^verbatim>\<open><\<close>, \<^verbatim>\<open>>\<close> and \<^verbatim>\<open><=\<close> of two
  numbers are those of the reals; every comparison with a NaN is false (\<^verbatim>\<open>a > b\<close> is
  written \<open>b < a\<close>). Rounding is left out, the infinities are not represented, and the
  two zeros are one number.
\<close>

datatype double = Val real | NaN

instantiation double :: "{zero, one, ord}"
begin

definition zero_double :: double where
  "zero_double = Val 0"

definition one_double :: double where
  "one_double = Val 1"

fun less_double :: "double \<Rightarrow> double \<Rightarrow> bool" where
  "less_double (Val a) (Val b) = (a < b)"
| "less_double _ _ = False"

fun less_eq_double :: "double \<Rightarrow> double \<Rightarrow> bool" where
  "less_eq_double (Val a) (Val b) = (a \<le> b)"
| "less_eq_double _ _ = False"

instance ..

end

text \<open>
  \<^verbatim>\<open>Eigen::Vector3d\<close>, a triple of coordinates. The raw-triple entry point compares
  coordinates, so there they are doubles (\<open>double Vector3\<close>). Where the code only
  stores coordinates or computes with them (the pre-indexed entry point, the scene, the
  box, the normals of their meshes) they are read as real numbers (\<open>Vector3d\<close>), and so
  are the \<^verbatim>\<open>float\<close>s of the imported scene: NaN is left out there, as rounding is.
\<close>

type_synonym 'c Vector3 = "'c \<times> 'c \<times> 'c"

type_synonym Vector3d = "real \<times> real \<times> real"

section \<open>The vertex record and its two orders (namespace detail)\<close>

text \<open>
  \<^verbatim>\<open>struct LocalVertexType { double x,y,z; unsigned int index; }\<close>. The constructor
  from a point leaves \<open>index\<close> unset; every use below assigns it before it is read, so the
  model starts it at 0.
\<close>

record LocalVertexType =
  x :: double
  y :: double
  z :: double
  index :: nat

definition LocalVertexType_of :: "double Vector3 \<Rightarrow> LocalVertexType" where
  "LocalVertexType_of v = (case v of (a, b, c) \<Rightarrow> \<lparr>x = a, y = b, z = c, index = 0\<rparr>)"

definition ltLocalVertexValue :: "LocalVertexType \<Rightarrow> LocalVertexType \<Rightarrow> bool" where
  "ltLocalVertexValue p1 p2 =
     (if x p1 < x p2 then True
      else if x p1 > x p2 then False
      else if y p1 < y p2 then True
      else if y p1 > y p2 then False
      else if z p1 < z p2 then True
      else False)"

definition ltLocalVertexIndex :: "LocalVertexType \<Rightarrow> LocalVertexType \<Rightarrow> bool" where
  "ltLocalVertexIndex p1 p2 = (index p1 < index p2)"

section \<open>The ordered set of vertex records\<close>

text \<open>
  \<^verbatim>\<open>std::set<LocalVertexType, ltLocalVertexValue>\<close> as the GNU C++ library implements
  it (\<^verbatim>\<open>_Rb_tree\<close> in \<^verbatim>\<open>stl_tree.h\<close> and \<^verbatim>\<open>tree.cc\<close>): a red-black tree of nodes, searched
  with the comparator alone. With a NaN coordinate the comparator is not a strict weak
  order, and what \<^verbatim>\<open>find\<close> and \<^verbatim>\<open>insert\<close> do then depends on the shape of the tree, so
  the tree is modelled node for node.
\<close>

datatype color = Red | Black

datatype vertex_set = Leaf | Node color vertex_set LocalVertexType vertex_set

text \<open>
  \<^verbatim>\<open>_M_lower_bound(x, y, k)\<close>: \<^verbatim>\<open>while (x != 0) if (!comp(key(x), k)) y = x, x = left(x);
  else x = right(x); return y;\<close>. The candidate \<open>cand\<close> is \<^verbatim>\<open>y\<close>, with \<open>None\<close> for
  \<^verbatim>\<open>end()\<close>.
\<close>

fun M_lower_bound ::
  "vertex_set \<Rightarrow> LocalVertexType option \<Rightarrow> LocalVertexType \<Rightarrow> LocalVertexType option" where
  "M_lower_bound Leaf cand k = cand"
| "M_lower_bound (Node c l e r) cand k =
     (if \<not> ltLocalVertexValue e k then M_lower_bound l (Some e) k
      else M_lower_bound r cand k)"

text \<open>
  \<^verbatim>\<open>find(k)\<close>: \<^verbatim>\<open>j = _M_lower_bound(root, end, k);
  return (j == end() || comp(k, key(j))) ? end() : j;\<close>.
\<close>

definition set_find :: "vertex_set \<Rightarrow> LocalVertexType \<Rightarrow> LocalVertexType option" where
  "set_find t k =
     (case M_lower_bound t None k of
        None \<Rightarrow> None
      | Some j \<Rightarrow> if ltLocalVertexValue k j then None else Some j)"

text \<open>
  \<^verbatim>\<open>_M_get_insert_unique_pos(k)\<close> walks down from the root, to the left where
  \<^verbatim>\<open>comp(k, key(x))\<close> and to the right otherwise, until it falls off the tree below a
  node \<^verbatim>\<open>y\<close>. Then \<^verbatim>\<open>j\<close> is \<^verbatim>\<open>y\<close> when the last step went right, and the
  predecessor of \<^verbatim>\<open>y\<close> when it went left; in both cases \<^verbatim>\<open>j\<close> is the last node at which
  the walk went right. When there is none (\<^verbatim>\<open>y\<close> is \<^verbatim>\<open>begin()\<close>, or the tree is empty)
  the key is inserted; otherwise it is inserted when \<^verbatim>\<open>comp(key(j), k)\<close>, and refused
  when not.
\<close>

fun last_right_turn ::
  "vertex_set \<Rightarrow> LocalVertexType option \<Rightarrow> LocalVertexType \<Rightarrow> LocalVertexType option" where
  "last_right_turn Leaf j k = j"
| "last_right_turn (Node c l e r) j k =
     (if ltLocalVertexValue k e then last_right_turn l j k
      else last_right_turn r (Some e) k)"

definition M_get_insert_unique_pos :: "vertex_set \<Rightarrow> LocalVertexType \<Rightarrow> bool" where
  "M_get_insert_unique_pos t k =
     (case last_right_turn t None k of
        None \<Rightarrow> True
      | Some j \<Rightarrow> ltLocalVertexValue j k)"

text \<open>
  The walk, as the path from the place of the new node up to the root: for every node
  passed, the side on which the walk went on, the node's colour and element, and its
  other subtree.
\<close>

datatype side = Left_child | Right_child

type_synonym frame = "side \<times> color \<times> LocalVertexType \<times> vertex_set"

fun descend :: "vertex_set \<Rightarrow> LocalVertexType \<Rightarrow> frame list \<Rightarrow> frame list" where
  "descend Leaf k p = p"
| "descend (Node c l e r) k p =
     (if ltLocalVertexValue k e then descend l k ((Left_child, c, e, r) # p)
      else descend r k ((Right_child, c, e, l) # p))"

fun attach :: "frame \<Rightarrow> vertex_set \<Rightarrow> vertex_set" where
  "attach (Left_child, c, e, sib) t = Node c t e sib"
| "attach (Right_child, c, e, sib) t = Node c sib e t"

definition rebuild :: "frame list \<Rightarrow> vertex_set \<Rightarrow> vertex_set" where
  "rebuild p t = fold attach p t"

text \<open>
  The loop of \<^verbatim>\<open>_Rb_tree_insert_and_rebalance\<close>, for the red node \<^verbatim>\<open>x\<close> (the subtree
  \<open>t\<close>) below the path \<open>p\<close>: \<^verbatim>\<open>while (x != root && x->parent->color == red)\<close>. With a
  red uncle, parent and uncle become black, the grandparent red, and the loop goes on
  at the grandparent. Otherwise one or two rotations end the loop, with the new root
  of the subtree black and the old grandparent red below it. The root is black after
  every insertion, so a red parent has a parent.
\<close>

fun rebalance :: "vertex_set \<Rightarrow> frame list \<Rightarrow> vertex_set" where
  "rebalance t [] = t"
| "rebalance t [f] = attach f t"
| "rebalance t ((dp, Black, ep, sp) # fg # rest) = rebuild ((dp, Black, ep, sp) # fg # rest) t"
| "rebalance t ((dp, Red, ep, sp) # (dg, cg, eg, Node Red ul ue ur) # rest) =
     rebalance (attach (dg, Red, eg, Node Black ul ue ur) (attach (dp, Black, ep, sp) t)) rest"
| "rebalance t ((Left_child, Red, ep, sp) # (Left_child, cg, eg, un) # rest) =
     rebuild rest (Node Black t ep (Node Red sp eg un))"
| "rebalance (Node ct a et b) ((Right_child, Red, ep, sp) # (Left_child, cg, eg, un) # rest) =
     rebuild rest (Node Black (Node Red sp ep a) et (Node Red b eg un))"
| "rebalance t ((Right_child, Red, ep, sp) # (Right_child, cg, eg, un) # rest) =
     rebuild rest (Node Black (Node Red un eg sp) ep t)"
| "rebalance (Node ct a et b) ((Left_child, Red, ep, sp) # (Right_child, cg, eg, un) # rest) =
     rebuild rest (Node Black (Node Red un eg a) et (Node Red b ep sp))"
| "rebalance Leaf (fp # fg # rest) = rebuild (fp # fg # rest) Leaf"

text \<open>\<^verbatim>\<open>root->color = black\<close>, the last statement of the insertion.\<close>

fun blacken :: "vertex_set \<Rightarrow> vertex_set" where
  "blacken Leaf = Leaf"
| "blacken (Node c l e r) = Node Black l e r"

text \<open>
  \<^verbatim>\<open>insert(k)\<close>: when \<^verbatim>\<open>_M_get_insert_unique_pos\<close> gives a place, a red node for \<open>k\<close>
  is hung there (on the side of the last comparison) and the tree is rebalanced;
  otherwise the set is left as it is.
\<close>

definition set_insert :: "LocalVertexType \<Rightarrow> vertex_set \<Rightarrow> vertex_set" where
  "set_insert k t =
     (if M_get_insert_unique_pos t k
      then blacken (rebalance (Node Red Leaf k Leaf) (descend t k []))
      else t)"

text \<open>Iteration from \<^verbatim>\<open>begin()\<close> to \<^verbatim>\<open>end()\<close> visits the nodes in order; \<^verbatim>\<open>size()\<close> counts them.\<close>

fun set_elems :: "vertex_set \<Rightarrow> LocalVertexType list" where
  "set_elems Leaf = []"
| "set_elems (Node c l e r) = set_elems l @ e # set_elems r"

fun set_size :: "vertex_set \<Rightarrow> nat" where
  "set_size Leaf = 0"
| "set_size (Node c l e r) = set_size l + 1 + set_size r"

text \<open>
  \<^verbatim>\<open>std::sort(vt.begin(), vt.end(), ltLocalVertexIndex())\<close>: the records in the order
  of the comparator, by insertion. The order of records that the comparator does not
  separate is left open by \<^verbatim>\<open>std::sort\<close>; they keep their order here.
\<close>

fun insert_by_index :: "LocalVertexType \<Rightarrow> LocalVertexType list \<Rightarrow> LocalVertexType list" where
  "insert_by_index v [] = [v]"
| "insert_by_index v (w # ws) =
     (if ltLocalVertexIndex w v then w # insert_by_index v ws else v # w # ws)"

definition sort_by_index :: "LocalVertexType list \<Rightarrow> LocalVertexType list" where
  "sort_by_index vt = foldr insert_by_index vt []"

section \<open>Welding (the loop of createMeshFromVertices on raw triples)\<close>

text \<open>
  The loop body repeats one block three times, for \<^verbatim>\<open>source[i3]\<close>, \<^verbatim>\<open>source[++i3]\<close>
  and \<^verbatim>\<open>source[++i3]\<close>: look the point up; when it is absent give it the index
  \<^verbatim>\<open>vertices.size()\<close> (converted to \<^verbatim>\<open>unsigned int\<close>) and insert it, otherwise take the
  index of the element found; push the index on \<^verbatim>\<open>triangles\<close>.
\<close>

type_synonym weld_state = "vertex_set \<times> nat list"

definition weld_vertex :: "double Vector3 \<Rightarrow> weld_state \<Rightarrow> weld_state" where
  "weld_vertex v st =
     (case st of (S, T) \<Rightarrow>
        (let vt = LocalVertexType_of v in
         case set_find S vt of
           None \<Rightarrow>
             (let vt' = vt\<lparr>index := u32 (set_size S)\<rparr>
              in (set_insert vt' S, T @ [index vt']))
         | Some p \<Rightarrow> (S, T @ [index (vt\<lparr>index := index p\<rparr>)])))"

definition weld_triple :: "double Vector3 list \<Rightarrow> nat \<Rightarrow> weld_state \<Rightarrow> weld_state" where
  "weld_triple source i st =
     (let i3 = u32 (i * 3);
          st1 = weld_vertex (source ! i3) st;
          i3' = u32 (i3 + 1);
          st2 = weld_vertex (source ! i3') st1;
          i3'' = u32 (i3' + 1)
      in weld_vertex (source ! i3'') st2)"

definition weld_loop :: "double Vector3 list \<Rightarrow> nat \<Rightarrow> weld_state" where
  "weld_loop source n = fold (weld_triple source) [0..<n] (Leaf, [])"

section \<open>The mesh (shapes.h) and its normals\<close>

text \<open>
  Modelled from the spec: the class \<^verbatim>\<open>Mesh\<close> is declared in
  \<^verbatim>\<open>geometric_shapes/shapes.h\<close>, which is not among the sources. By the data model of
  the spec a mesh holds a vertex count \<open>N\<close>, a triangle count \<open>M\<close>, \<open>N\<close> position triples,
  \<open>M\<close> index triples, \<open>M\<close> per-triangle normals and \<open>N\<close> per-vertex normals, flat. An array
  cell is \<open>None\<close> until it is written. The type \<open>'c\<close> is that of the coordinates:
  \<open>double\<close> for the raw-triple entry point, \<open>real\<close> elsewhere (\<open>Mesh\<close>).
\<close>

record 'c Mesh_of =
  vertex_count :: nat
  vertices :: "'c option list"
  triangle_count :: nat
  triangles :: "nat option list"
  triangle_normals :: "'c option list"
  vertex_normals :: "'c option list"

type_synonym Mesh = "real Mesh_of"

text \<open>
  Modelled from the spec: the constructor \<^verbatim>\<open>Mesh(v_count, t_count)\<close> allocates the
  entity with fixed counts; nothing is written yet.
\<close>

definition Mesh_new :: "nat \<Rightarrow> nat \<Rightarrow> 'c Mesh_of" where
  "Mesh_new v_count t_count =
     \<lparr>vertex_count = v_count,
      vertices = replicate (3 * v_count) None,
      triangle_count = t_count,
      triangles = replicate (3 * t_count) None,
      triangle_normals = replicate (3 * t_count) None,
      vertex_normals = replicate (3 * v_count) None\<rparr>"

text \<open>An array store; a store outside the allocation does not return.\<close>

definition store :: "'a option list \<Rightarrow> nat \<Rightarrow> 'a \<Rightarrow> 'a option list option" where
  "store arr k v = (if k < length arr then Some (arr[k := Some v]) else None)"

text \<open>The triple of cells \<open>3k\<close>, \<open>3k+1\<close>, \<open>3k+2\<close> of a flat array, when all three are written.\<close>

definition cells3 :: "'a option list \<Rightarrow> nat \<Rightarrow> ('a \<times> 'a \<times> 'a) option" where
  "cells3 arr k =
     (if 3 * k + 2 < length arr
      then (case (arr ! (3 * k), arr ! (3 * k + 1), arr ! (3 * k + 2)) of
              (Some a, Some b, Some c) \<Rightarrow> Some (a, b, c)
            | _ \<Rightarrow> None)
      else None)"

fun vsub :: "Vector3d \<Rightarrow> Vector3d \<Rightarrow> Vector3d" where
  "vsub (a1, a2, a3) (b1, b2, b3) = (a1 - b1, a2 - b2, a3 - b3)"

fun vadd :: "Vector3d \<Rightarrow> Vector3d \<Rightarrow> Vector3d" where
  "vadd (a1, a2, a3) (b1, b2, b3) = (a1 + b1, a2 + b2, a3 + b3)"

fun cross :: "Vector3d \<Rightarrow> Vector3d \<Rightarrow> Vector3d" where
  "cross (a1, a2, a3) (b1, b2, b3) = (a2 * b3 - a3 * b2, a3 * b1 - a1 * b3, a1 * b2 - a2 * b1)"

fun squaredNorm :: "Vector3d \<Rightarrow> real" where
  "squaredNorm (a1, a2, a3) = a1 * a1 + a2 * a2 + a3 * a3"

text \<open>
  Modelled from the spec: normalisation as section 4.4 requires it, the zero vector for
  a vector of length zero.
\<close>

fun normalize :: "Vector3d \<Rightarrow> Vector3d" where
  "normalize (a1, a2, a3) =
     (if squaredNorm (a1, a2, a3) = 0 then (0, 0, 0)
      else (a1 / sqrt (squaredNorm (a1, a2, a3)),
            a2 / sqrt (squaredNorm (a1, a2, a3)),
            a3 / sqrt (squaredNorm (a1, a2, a3))))"

definition flat3 :: "('a \<times> 'a \<times> 'a) \<Rightarrow> 'a option list" where
  "flat3 t = (case t of (a, b, c) \<Rightarrow> [Some a, Some b, Some c])"

text \<open>
  Modelled from the spec: \<^verbatim>\<open>Mesh::computeTriangleNormals\<close> (shapes.cpp, not among the
  sources). For triangle \<open>(a, b, c)\<close> the normal is \<open>normalize ((b - a) \<times> (c - a))\<close>.
  Indices are trusted: reading an index or a position that was never written, or a
  position outside the mesh, does not return.
\<close>

definition triangle_normal :: "Mesh \<Rightarrow> nat \<Rightarrow> Vector3d option" where
  "triangle_normal m t =
     (case cells3 (triangles m) t of
        None \<Rightarrow> None
      | Some (ia, ib, ic) \<Rightarrow>
          (case (cells3 (vertices m) ia, cells3 (vertices m) ib, cells3 (vertices m) ic) of
             (Some a, Some b, Some c) \<Rightarrow> Some (normalize (cross (vsub b a) (vsub c a)))
           | _ \<Rightarrow> None))"

definition computeTriangleNormals :: "Mesh \<Rightarrow> Mesh option" where
  "computeTriangleNormals m =
     (let ns = map (triangle_normal m) [0..<triangle_count m]
      in if None \<in> set ns then None
         else Some (m\<lparr>triangle_normals := concat (map (\<lambda>n. flat3 (the n)) ns)\<rparr>))"

text \<open>
  Modelled from the spec: \<^verbatim>\<open>Mesh::computeVertexNormals\<close>. For each vertex, the sum of
  the normals of every triangle referencing it, without weights, normalised.
\<close>

definition references :: "'c Mesh_of \<Rightarrow> nat \<Rightarrow> nat \<Rightarrow> bool" where
  "references m t v =
     (case cells3 (triangles m) t of
        None \<Rightarrow> False
      | Some (ia, ib, ic) \<Rightarrow> ia = v \<or> ib = v \<or> ic = v)"

definition incident_normals :: "'c Mesh_of \<Rightarrow> nat \<Rightarrow> 'c Vector3 option list" where
  "incident_normals m v =
     map (cells3 (triangle_normals m)) (filter (\<lambda>t. references m t v) [0..<triangle_count m])"

definition vertex_normal :: "Mesh \<Rightarrow> nat \<Rightarrow> Vector3d option" where
  "vertex_normal m v =
     (let ns = incident_normals m v
      in if None \<in> set ns then None
         else Some (normalize (foldr vadd (map the ns) (0, 0, 0))))"

definition computeVertexNormals :: "Mesh \<Rightarrow> Mesh option" where
  "computeVertexNormals m =
     (let ns = map (vertex_normal m) [0..<vertex_count m]
      in if None \<in> set ns then None
         else Some (m\<lparr>vertex_normals := concat (map (\<lambda>n. flat3 (the n)) ns)\<rparr>))"

text \<open>
  Modelled from the spec: \<^verbatim>\<open>Mesh::computeTriangleNormals\<close> on a mesh of doubles. It
  reads the arrays as above. The normal of a triangle is the one of section 4.4 when
  every coordinate of its three positions is a number, and NaN in every component when
  one of them is NaN.
\<close>

fun reals :: "double Vector3 \<Rightarrow> Vector3d option" where
  "reals (Val a, Val b, Val c) = Some (a, b, c)"
| "reals _ = None"

fun doubles :: "Vector3d \<Rightarrow> double Vector3" where
  "doubles (a, b, c) = (Val a, Val b, Val c)"

definition normal_d :: "double Vector3 \<Rightarrow> double Vector3 \<Rightarrow> double Vector3 \<Rightarrow> double Vector3" where
  "normal_d a b c =
     (case (reals a, reals b, reals c) of
        (Some ra, Some rb, Some rc) \<Rightarrow> doubles (normalize (cross (vsub rb ra) (vsub rc ra)))
      | _ \<Rightarrow> (NaN, NaN, NaN))"

definition triangle_normal_d :: "double Mesh_of \<Rightarrow> nat \<Rightarrow> double Vector3 option" where
  "triangle_normal_d m t =
     (case cells3 (triangles m) t of
        None \<Rightarrow> None
      | Some (ia, ib, ic) \<Rightarrow>
          (case (cells3 (vertices m) ia, cells3 (vertices m) ib, cells3 (vertices m) ic) of
             (Some a, Some b, Some c) \<Rightarrow> Some (normal_d a b c)
           | _ \<Rightarrow> None))"

definition computeTriangleNormals_d :: "double Mesh_of \<Rightarrow> double Mesh_of option" where
  "computeTriangleNormals_d m =
     (let ns = map (triangle_normal_d m) [0..<triangle_count m]
      in if None \<in> set ns then None
         else Some (m\<lparr>triangle_normals := concat (map (\<lambda>n. flat3 (the n)) ns)\<rparr>))"

text \<open>
  Modelled from the spec: \<^verbatim>\<open>Mesh::computeVertexNormals\<close> on a mesh of doubles: the sum
  of the normals of the triangles referencing the vertex, normalised as in section 4.4,
  and NaN in every component when one of these normals is NaN.
\<close>

definition sum_normal_d :: "double Vector3 list \<Rightarrow> double Vector3" where
  "sum_normal_d ns =
     (if None \<in> set (map reals ns) then (NaN, NaN, NaN)
      else doubles (normalize (foldr vadd (map (\<lambda>n. the (reals n)) ns) (0, 0, 0))))"

definition vertex_normal_d :: "double Mesh_of \<Rightarrow> nat \<Rightarrow> double Vector3 option" where
  "vertex_normal_d m v =
     (let ns = incident_normals m v
      in if None \<in> set ns then None
         else Some (sum_normal_d (map the ns)))"

definition computeVertexNormals_d :: "double Mesh_of \<Rightarrow> double Mesh_of option" where
  "computeVertexNormals_d m =
     (let ns = map (vertex_normal_d m) [0..<vertex_count m]
      in if None \<in> set ns then None
         else Some (m\<lparr>vertex_normals := concat (map (\<lambda>n. flat3 (the n)) ns)\<rparr>))"

section \<open>Diagnostics and results\<close>

text \<open>
  \<^verbatim>\<open>logWarn\<close> and \<^verbatim>\<open>logError\<close> (console_bridge) append an entry to the log. A function
  returns the entries it logged and its outcome: \<open>None\<close> when the call does not return
  normally (a store outside an allocation, a read of a cell never written, a loop that
  does not end), \<open>Some NULL\<close> for the null pointer, \<open>Some (Ptr m)\<close> for a mesh.
\<close>

datatype severity = Warn | Error

type_synonym log_entry = "severity \<times> string"

datatype 'a ptr = NULL | Ptr 'a

type_synonym 'c outcome_of = "log_entry list \<times> 'c Mesh_of ptr option"

type_synonym outcome = "real outcome_of"

section \<open>createMeshFromVertices\<close>

text \<open>
  Three consecutive stores \<^verbatim>\<open>a[i3] = x; a[i3 + 1] = y; a[i3 + 2] = z\<close> with
  \<^verbatim>\<open>unsigned int\<close> index arithmetic.
\<close>

definition store_xyz :: "'c option list \<Rightarrow> nat \<Rightarrow> 'c Vector3 \<Rightarrow> 'c option list option" where
  "store_xyz arr i3 v =
     (case v of (a, b, c) \<Rightarrow>
        Option.bind (store arr i3 a) (\<lambda>arr1.
        Option.bind (store arr1 (u32 (i3 + 1)) b) (\<lambda>arr2.
        store arr2 (u32 (i3 + 2)) c)))"

text \<open>
  \<^verbatim>\<open>for (unsigned int i = 0 ; i < vertices.size() ; ++i)\<close> of the pre-indexed entry
  point, started at \<open>i\<close>: the bound is a \<^verbatim>\<open>size_t\<close>, the counter wraps.
\<close>

partial_function (option) copy_positions ::
  "Vector3d list \<Rightarrow> nat \<Rightarrow> real option list \<Rightarrow> real option list option" where
  "copy_positions vs i arr =
     (if i < length vs
      then Option.bind (store_xyz arr (u32 (3 * i)) (vs ! i))
             (\<lambda>arr'. copy_positions vs (u32 (i + 1)) arr')
      else Some arr)"

text \<open>\<^verbatim>\<open>std::copy(triangles.begin(), triangles.end(), mesh->triangles)\<close>.\<close>

definition std_copy :: "'a list \<Rightarrow> 'a option list \<Rightarrow> 'a option list option" where
  "std_copy src dst =
     (if length src \<le> length dst then Some (map Some src @ drop (length src) dst) else None)"

text \<open>
  The common tail of the entry points: copy the indices into \<^verbatim>\<open>mesh->triangles\<close>, then
  \<^verbatim>\<open>mesh->computeTriangleNormals()\<close> and \<^verbatim>\<open>mesh->computeVertexNormals()\<close>.
\<close>

definition finish_mesh :: "Mesh \<Rightarrow> nat list \<Rightarrow> Mesh option" where
  "finish_mesh mesh ts =
     Option.bind (std_copy ts (triangles mesh)) (\<lambda>tr.
     Option.bind (computeTriangleNormals (mesh\<lparr>triangles := tr\<rparr>)) computeVertexNormals)"

text \<open>The same tail on a mesh of doubles.\<close>

definition finish_mesh_d :: "double Mesh_of \<Rightarrow> nat list \<Rightarrow> double Mesh_of option" where
  "finish_mesh_d mesh ts =
     Option.bind (std_copy ts (triangles mesh)) (\<lambda>tr.
     Option.bind (computeTriangleNormals_d (mesh\<lparr>triangles := tr\<rparr>)) computeVertexNormals_d)"

text \<open>
  \<^verbatim>\<open>createMeshFromVertices(vertices, triangles)\<close>, the pre-indexed entry point. It has
  no path to the null pointer: the result is the mesh, or \<open>None\<close> when the call does not
  return normally.
\<close>

definition createMeshFromVertices_indexed :: "Vector3d list \<Rightarrow> nat list \<Rightarrow> Mesh option" where
  "createMeshFromVertices_indexed vs ts =
     (let nt = u32 (length ts div 3);
          mesh = Mesh_new (u32 (length vs)) nt
      in Option.bind (copy_positions vs 0 (vertices mesh)) (\<lambda>arr.
           finish_mesh (mesh\<lparr>vertices := arr\<rparr>) ts))"

text \<open>
  \<^verbatim>\<open>for (unsigned int i = 0 ; i < vt.size() ; ++i)\<close> of the raw-triple entry point,
  with \<^verbatim>\<open>unsigned int i3 = i * 3\<close>.
\<close>

partial_function (option) copy_records ::
  "LocalVertexType list \<Rightarrow> nat \<Rightarrow> double option list \<Rightarrow> double option list option" where
  "copy_records vt i arr =
     (if i < length vt
      then Option.bind (store_xyz arr (u32 (i * 3)) (x (vt ! i), y (vt ! i), z (vt ! i)))
             (\<lambda>arr'. copy_records vt (u32 (i + 1)) arr')
      else Some arr)"

definition not_divisible_msg :: string where
  "not_divisible_msg = ''The number of vertices to construct a mesh from is not divisible by 3. Probably constructed triangles will not make sense.''"

text \<open>\<^verbatim>\<open>createMeshFromVertices(source)\<close>, the raw-triple entry point.\<close>

definition createMeshFromVertices :: "double Vector3 list \<Rightarrow> double outcome_of" where
  "createMeshFromVertices source =
     (if length source < 3 then ([], Some NULL)
      else
        (let lg = (if length source mod 3 \<noteq> 0 then [(Error, not_divisible_msg)] else []);
             n = u32 (length source div 3);
             (S, T) = weld_loop source n;
             vt = sort_by_index (set_elems S);
             nt = u32 (length T div 3);
             mesh = Mesh_new (u32 (length vt)) nt
         in (lg,
             map_option Ptr
               (Option.bind (copy_records vt 0 (vertices mesh)) (\<lambda>arr.
                  finish_mesh_d (mesh\<lparr>vertices := arr\<rparr>) T)))))"

section \<open>First-discovery order\<close>

text \<open>
  The words of the spec for welding, as functions on point sequences: \<open>first_seen ps\<close>
  lists the distinct points of \<open>ps\<close> in the order in which each occurs first, and
  \<open>first_index ds p\<close> is the position of \<open>p\<close> in \<open>ds\<close>.
\<close>

fun first_seen :: "'a list \<Rightarrow> 'a list" where
  "first_seen [] = []"
| "first_seen (p # ps) = p # filter (\<lambda>q. q \<noteq> p) (first_seen ps)"

fun first_index :: "'a list \<Rightarrow> 'a \<Rightarrow> nat" where
  "first_index [] p = 0"
| "first_index (q # qs) p = (if q = p then 0 else Suc (first_index qs p))"

text \<open>One step of discovery, and the record table that a discovery list stands for.\<close>

definition discover :: "'a \<Rightarrow> 'a list \<Rightarrow> 'a list" where
  "discover p ds = (if p \<in> set ds then ds else ds @ [p])"

definition vertex_record :: "double Vector3 \<Rightarrow> nat \<Rightarrow> LocalVertexType" where
  "vertex_record v i = (LocalVertexType_of v)\<lparr>index := i\<rparr>"

definition vertex_table :: "double Vector3 list \<Rightarrow> LocalVertexType list" where
  "vertex_table ds = map (\<lambda>i. vertex_record (ds ! i) i) [0..<length ds]"

text \<open>The whole triples of the input: its first \<open>3 * (length source div 3)\<close> points.\<close>

definition welded_points :: "'c Vector3 list \<Rightarrow> 'c Vector3 list" where
  "welded_points source = take (3 * (length source div 3)) source"

text \<open>
  The points the welding loop reads, in the order in which it reads them: in round \<open>i\<close>
  the elements \<^verbatim>\<open>source[i3]\<close>, \<^verbatim>\<open>source[++i3]\<close>, \<^verbatim>\<open>source[++i3]\<close> with
  \<^verbatim>\<open>unsigned int i3 = i * 3\<close>, for \<open>i\<close> below \<^verbatim>\<open>unsigned int n = source.size() / 3\<close>.
\<close>

definition read_triple :: "'c Vector3 list \<Rightarrow> nat \<Rightarrow> 'c Vector3 list" where
  "read_triple source i =
     [source ! u32 (i * 3), source ! u32 (u32 (i * 3) + 1), source ! u32 (u32 (u32 (i * 3) + 1) + 1)]"

definition read_points :: "'c Vector3 list \<Rightarrow> 'c Vector3 list" where
  "read_points source = concat (map (read_triple source) [0..<u32 (length source div 3)])"

section \<open>The imported scene (Assimp) and extractMeshData\<close>

text \<open>
  The types of the import library, as far as the source reads them. \<^verbatim>\<open>aiMatrix4x4\<close> has
  the entries \<open>a1 \<dots> d4\<close> row by row; its default constructor is the identity,
  \<^verbatim>\<open>operator*=\<close> multiplies on the right, and a matrix times an \<^verbatim>\<open>aiVector3D\<close> applies
  the first three rows to \<open>(x, y, z, 1)\<close>.
\<close>

type_synonym aiVector3D = "real \<times> real \<times> real"

datatype aiMatrix4x4 =
  aiMatrix4x4 real real real real real real real real real real real real real real real real

definition aiMatrix4x4_identity :: aiMatrix4x4 where
  "aiMatrix4x4_identity = aiMatrix4x4 1 0 0 0  0 1 0 0  0 0 1 0  0 0 0 1"

fun mat_mul :: "aiMatrix4x4 \<Rightarrow> aiMatrix4x4 \<Rightarrow> aiMatrix4x4" where
  "mat_mul (aiMatrix4x4 a1 a2 a3 a4 b1 b2 b3 b4 c1 c2 c3 c4 d1 d2 d3 d4)
           (aiMatrix4x4 ma1 ma2 ma3 ma4 mb1 mb2 mb3 mb4 mc1 mc2 mc3 mc4 md1 md2 md3 md4) =
     aiMatrix4x4
       (ma1 * a1 + mb1 * a2 + mc1 * a3 + md1 * a4)
       (ma2 * a1 + mb2 * a2 + mc2 * a3 + md2 * a4)
       (ma3 * a1 + mb3 * a2 + mc3 * a3 + md3 * a4)
       (ma4 * a1 + mb4 * a2 + mc4 * a3 + md4 * a4)
       (ma1 * b1 + mb1 * b2 + mc1 * b3 + md1 * b4)
       (ma2 * b1 + mb2 * b2 + mc2 * b3 + md2 * b4)
       (ma3 * b1 + mb3 * b2 + mc3 * b3 + md3 * b4)
       (ma4 * b1 + mb4 * b2 + mc4 * b3 + md4 * b4)
       (ma1 * c1 + mb1 * c2 + mc1 * c3 + md1 * c4)
       (ma2 * c1 + mb2 * c2 + mc2 * c3 + md2 * c4)
       (ma3 * c1 + mb3 * c2 + mc3 * c3 + md3 * c4)
       (ma4 * c1 + mb4 * c2 + mc4 * c3 + md4 * c4)
       (ma1 * d1 + mb1 * d2 + mc1 * d3 + md1 * d4)
       (ma2 * d1 + mb2 * d2 + mc2 * d3 + md2 * d4)
       (ma3 * d1 + mb3 * d2 + mc3 * d3 + md3 * d4)
       (ma4 * d1 + mb4 * d2 + mc4 * d3 + md4 * d4)"

fun mat_apply :: "aiMatrix4x4 \<Rightarrow> aiVector3D \<Rightarrow> aiVector3D" where
  "mat_apply (aiMatrix4x4 a1 a2 a3 a4 b1 b2 b3 b4 c1 c2 c3 c4 d1 d2 d3 d4) (px, py, pz) =
     (a1 * px + a2 * py + a3 * pz + a4,
      b1 * px + b2 * py + b3 * pz + b4,
      c1 * px + c2 * py + c3 * pz + c4)"

text \<open>A transform is affine when its last row is \<open>(0, 0, 0, 1)\<close>.\<close>

fun affine :: "aiMatrix4x4 \<Rightarrow> bool" where
  "affine (aiMatrix4x4 a1 a2 a3 a4 b1 b2 b3 b4 c1 c2 c3 c4 d1 d2 d3 d4) =
     (d1 = 0 \<and> d2 = 0 \<and> d3 = 0 \<and> d4 = 1)"

definition translation :: "real \<Rightarrow> real \<Rightarrow> real \<Rightarrow> aiMatrix4x4" where
  "translation tx ty tz = aiMatrix4x4 1 0 0 tx  0 1 0 ty  0 0 1 tz  0 0 0 1"

text \<open>
  \<^verbatim>\<open>aiFace\<close>: \<open>mNumIndices\<close> is the length of \<open>mIndices\<close>. \<^verbatim>\<open>aiMesh\<close>: \<open>mNumVertices\<close>
  and \<open>mNumFaces\<close> are the lengths of \<open>mVertices\<close> and \<open>mFaces\<close>. \<^verbatim>\<open>aiNode\<close>: the local
  transform, the indices of its meshes in the scene, its children. \<^verbatim>\<open>aiScene\<close>: the root
  and the meshes; \<open>HasMeshes\<close> says that there is one.
\<close>

record aiFace =
  mIndices :: "nat list"

definition mNumIndices :: "aiFace \<Rightarrow> nat" where
  "mNumIndices f = length (mIndices f)"

record aiMesh =
  mVertices :: "aiVector3D list"
  mFaces :: "aiFace list"

datatype aiNode = aiNode (mTransformation: aiMatrix4x4) (mMeshes_node: "nat list") (mChildren: "aiNode list")

record aiScene =
  mRootNode :: aiNode
  mMeshes :: "aiMesh list"

definition HasMeshes :: "aiScene \<Rightarrow> bool" where
  "HasMeshes scene = (mMeshes scene \<noteq> [])"

type_synonym flat_data = "Vector3d list \<times> nat list"

text \<open>
  \<^verbatim>\<open>aiVector3D v = transform * a->mVertices[i]\<close> and the vertex pushed for it,
  \<^verbatim>\<open>(v.x * scale.x(), v.y * scale.y(), v.z * scale.z())\<close>.
\<close>

definition scaled_vertex :: "aiMatrix4x4 \<Rightarrow> Vector3d \<Rightarrow> aiVector3D \<Rightarrow> Vector3d" where
  "scaled_vertex transform scale p =
     (case (mat_apply transform p, scale) of
        ((vx, vy, vz), (sx, sy, sz)) \<Rightarrow> (vx * sx, vy * sy, vz * sz))"

text \<open>
  The body of the loop over the meshes of a node, for one mesh \<open>a\<close>: the two inner
  loops push, in order, one vertex per vertex of \<open>a\<close> and three indices per face of
  \<open>a\<close> with exactly three indices. \<open>offset\<close> and the sums are \<^verbatim>\<open>unsigned int\<close>.
\<close>

definition extract_mesh :: "aiMatrix4x4 \<Rightarrow> Vector3d \<Rightarrow> aiMesh \<Rightarrow> flat_data \<Rightarrow> flat_data" where
  "extract_mesh transform scale a acc =
     (case acc of (vs, ts) \<Rightarrow>
        (let offset = u32 (length vs)
         in (vs @ map (scaled_vertex transform scale) (mVertices a),
             ts @ concat (map (\<lambda>f. [u32 (offset + mIndices f ! 0),
                                     u32 (offset + mIndices f ! 1),
                                     u32 (offset + mIndices f ! 2)])
                          (filter (\<lambda>f. mNumIndices f = 3) (mFaces a))))))"

text \<open>
  The loop over \<^verbatim>\<open>node->mMeshes\<close>; \<^verbatim>\<open>scene->mMeshes[k]\<close> outside the scene's array does
  not return.
\<close>

fun extract_node_meshes ::
  "aiScene \<Rightarrow> aiMatrix4x4 \<Rightarrow> Vector3d \<Rightarrow> nat list \<Rightarrow> flat_data \<Rightarrow> flat_data option" where
  "extract_node_meshes scene transform scale [] acc = Some acc"
| "extract_node_meshes scene transform scale (k # ks) acc =
     (if k < length (mMeshes scene)
      then extract_node_meshes scene transform scale ks
             (extract_mesh transform scale (mMeshes scene ! k) acc)
      else None)"

text \<open>
  \<^verbatim>\<open>extractMeshData\<close>: \<^verbatim>\<open>transform = parent_transform; transform *= node->mTransformation\<close>,
  the meshes of the node, then the children in order with \<open>transform\<close> as their parent
  transform. The output vectors are passed through.
\<close>

fun extractMeshData ::
    "aiScene \<Rightarrow> aiNode \<Rightarrow> aiMatrix4x4 \<Rightarrow> Vector3d \<Rightarrow> flat_data \<Rightarrow> flat_data option"
  and extractChildren ::
    "aiScene \<Rightarrow> aiNode list \<Rightarrow> aiMatrix4x4 \<Rightarrow> Vector3d \<Rightarrow> flat_data \<Rightarrow> flat_data option" where
  "extractMeshData scene (aiNode local ms cs) parent_transform scale acc =
     (let transform = mat_mul parent_transform local
      in case extract_node_meshes scene transform scale ms acc of
           None \<Rightarrow> None
         | Some acc' \<Rightarrow> extractChildren scene cs transform scale acc')"
| "extractChildren scene [] transform scale acc = Some acc"
| "extractChildren scene (c # cs) transform scale acc =
     (case extractMeshData scene c transform scale acc of
        None \<Rightarrow> None
      | Some acc' \<Rightarrow> extractChildren scene cs transform scale acc')"

section \<open>createMeshFromAsset\<close>

definition one_scale :: Vector3d where
  "one_scale = (1, 1, 1)"

definition createMeshFromAsset :: "aiScene \<Rightarrow> Vector3d \<Rightarrow> string \<Rightarrow> outcome" where
  "createMeshFromAsset scene scale resource_name =
     (if \<not> HasMeshes scene
      then ([(Warn, ''Assimp reports scene in '' @ resource_name @ '' has no meshes'')], Some NULL)
      else
        (case extractMeshData scene (mRootNode scene) aiMatrix4x4_identity scale ([], []) of
           None \<Rightarrow> ([], None)
         | Some (vs, ts) \<Rightarrow>
             if vs = []
             then ([(Warn, ''There are no vertices in the scene '' @ resource_name)], Some NULL)
             else if ts = []
             then ([(Warn, ''There are no triangles in the scene '' @ resource_name)], Some NULL)
             else ([], map_option Ptr (createMeshFromVertices_indexed vs ts))))"

definition createMeshFromAsset_default :: "aiScene \<Rightarrow> string \<Rightarrow> outcome" where
  "createMeshFromAsset_default scene resource_name = createMeshFromAsset scene one_scale resource_name"

section \<open>createMeshFromBinary and createMeshFromResource\<close>

text \<open>
  The two collaborators are parameters. \<open>importer buffer size hint\<close> stands for
  \<^verbatim>\<open>Assimp::Importer::ReadFileFromMemory\<close> with the fixed post-processing flags; \<open>None\<close>
  is the null scene. \<open>retriever resource\<close> stands for
  \<^verbatim>\<open>resource_retriever::Retriever::get\<close>: \<open>Inl\<close> carries \<^verbatim>\<open>what()\<close> of the exception
  thrown, \<open>Inr\<close> the memory resource. A null buffer is \<open>None\<close>. The local string
  \<^verbatim>\<open>hint\<close> of createMeshFromBinary is computed and never read; it is left out.
\<close>

type_synonym buffer = "nat list option"

type_synonym importer = "buffer \<Rightarrow> nat \<Rightarrow> string \<Rightarrow> aiScene option"

record MemoryResource =
  data :: buffer
  size_res :: nat

type_synonym retriever = "string \<Rightarrow> string + MemoryResource"

definition createMeshFromBinary ::
  "importer \<Rightarrow> buffer \<Rightarrow> nat \<Rightarrow> Vector3d \<Rightarrow> string \<Rightarrow> outcome" where
  "createMeshFromBinary importer buf sz scale assimp_hint =
     (if buf = None \<or> sz < 1
      then ([(Warn, ''Cannot construct mesh from empty binary buffer'')], Some NULL)
      else
        (case importer buf sz assimp_hint of
           Some scene \<Rightarrow> createMeshFromAsset scene scale assimp_hint
         | None \<Rightarrow> ([], Some NULL)))"

definition createMeshFromBinary_default :: "importer \<Rightarrow> buffer \<Rightarrow> nat \<Rightarrow> string \<Rightarrow> outcome" where
  "createMeshFromBinary_default importer buf sz assimp_hint =
     createMeshFromBinary importer buf sz one_scale assimp_hint"

definition createMeshFromResource ::
  "retriever \<Rightarrow> importer \<Rightarrow> string \<Rightarrow> Vector3d \<Rightarrow> outcome" where
  "createMeshFromResource retriever importer resource scale =
     (case retriever resource of
        Inl what \<Rightarrow> ([(Error, what)], Some NULL)
      | Inr res \<Rightarrow>
          if size_res res = 0
          then ([(Warn, ''Retrieved empty mesh for resource '' @ [CHR 39] @ resource @ [CHR 39])],
                Some NULL)
          else
            (case createMeshFromBinary importer (data res) (size_res res) scale resource of
               (lg, m) \<Rightarrow>
                 if m = Some NULL
                 then (lg @ [(Warn, ''Assimp reports no scene in '' @ resource)], m)
                 else (lg, m)))"

definition createMeshFromResource_default :: "retriever \<Rightarrow> importer \<Rightarrow> string \<Rightarrow> outcome" where
  "createMeshFromResource_default retriever importer resource =
     createMeshFromResource retriever importer resource one_scale"

section \<open>createMeshFromShape for a box\<close>

text \<open>\<^verbatim>\<open>Box\<close> (shapes.h) holds \<^verbatim>\<open>double size[3]\<close>.\<close>

record Box =
  size_box :: "real \<times> real \<times> real"

definition tri :: "nat list" where
  "tri = [0, 1, 2,
          2, 3, 0,
          4, 3, 2,
          2, 6, 4,
          7, 6, 2,
          2, 1, 7,
          3, 4, 5,
          5, 0, 3,
          0, 5, 7,
          7, 1, 0,
          7, 5, 4,
          4, 6, 7]"

text \<open>
  A sequence of stores \<^verbatim>\<open>a[k] = v\<close>, in order. The table \<open>tri\<close> is copied by
  \<^verbatim>\<open>memcpy(result->triangles, tri, sizeof(unsigned int) * 36)\<close>, all 36 entries of it,
  which is the copy at the head of \<open>finish_mesh\<close>; the two normal computations follow
  as in the other entry points. The result is never the null pointer.
\<close>

fun store_all :: "'a option list \<Rightarrow> (nat \<times> 'a) list \<Rightarrow> 'a option list option" where
  "store_all arr [] = Some arr"
| "store_all arr ((k, v) # kvs) = Option.bind (store arr k v) (\<lambda>arr'. store_all arr' kvs)"

definition createMeshFromShape :: "Box \<Rightarrow> Mesh option" where
  "createMeshFromShape box =
     (case size_box box of (s0, s1, s2) \<Rightarrow>
        (let hx = s0 / 2;
             hy = s1 / 2;
             hz = s2 / 2;
             result = Mesh_new 8 12
         in Option.bind
              (store_all (vertices result)
                 [(0, - hx), (1, - hy), (2, - hz),
                  (3, hx), (4, - hy), (5, - hz),
                  (6, hx), (7, - hy), (8, hz),
                  (9, - hx), (10, - hy), (11, hz),
                  (12, - hx), (13, hy), (14, hz),
                  (15, - hx), (16, hy), (17, - hz),
                  (18, hx), (19, hy), (20, hz),
                  (21, hx), (22, hy), (23, - hz)])
              (\<lambda>arr. finish_mesh (result\<lparr>vertices := arr\<rparr>) tri)))"

section \<open>Notions used in the proofs\<close>

text \<open>
  The elements to the left and to the right of the place that a path leads to, in the
  order of the tree.
\<close>

fun left_of :: "frame list \<Rightarrow> LocalVertexType list" where
  "left_of [] = []"
| "left_of ((Left_child, c, e, sib) # p) = left_of p"
| "left_of ((Right_child, c, e, sib) # p) = left_of p @ set_elems sib @ [e]"

fun right_of :: "frame list \<Rightarrow> LocalVertexType list" where
  "right_of [] = []"
| "right_of ((Left_child, c, e, sib) # p) = e # set_elems sib @ right_of p"
| "right_of ((Right_child, c, e, sib) # p) = right_of p"

text \<open>The root of a set that is not empty is black.\<close>

fun black_root :: "vertex_set \<Rightarrow> bool" where
  "black_root Leaf = True"
| "black_root (Node c l e r) = (c = Black)"

text \<open>
  Points and records without a NaN coordinate: on them the comparator is a strict
  total order up to the index, and exact floating-point equality of the coordinates is
  equality.
\<close>

definition no_nan :: "double Vector3 \<Rightarrow> bool" where
  "no_nan v = (case v of (a, b, c) \<Rightarrow> a \<noteq> NaN \<and> b \<noteq> NaN \<and> c \<noteq> NaN)"

definition finite_record :: "LocalVertexType \<Rightarrow> bool" where
  "finite_record v \<longleftrightarrow> x v \<noteq> NaN \<and> y v \<noteq> NaN \<and> z v \<noteq> NaN"

text \<open>A set without NaN whose elements stand in the order of the comparator.\<close>

definition sorted_set :: "vertex_set \<Rightarrow> bool" where
  "sorted_set t \<longleftrightarrow>
     sorted_wrt ltLocalVertexValue (set_elems t) \<and> (\<forall>e\<in>set (set_elems t). finite_record e)"

text \<open>
  The invariant of the welding loop on points without NaN: the set is sorted and holds
  exactly the records of the discovery list \<open>ds\<close>, each point with its position in \<open>ds\<close>
  as index.
\<close>

definition inv_weld :: "vertex_set \<Rightarrow> double Vector3 list \<Rightarrow> bool" where
  "inv_weld S ds \<longleftrightarrow>
     sorted_set S \<and> mset (set_elems S) = mset (vertex_table ds) \<and> distinct ds"

definition flat_record :: "LocalVertexType \<Rightarrow> double option list" where
  "flat_record v = [Some (x v), Some (y v), Some (z v)]"

text \<open>
  A mesh whose positions and indices are written and whose indices are below the vertex
  count: what the computation of the normals relies on.
\<close>

definition well_indexed :: "'c Mesh_of \<Rightarrow> bool" where
  "well_indexed m \<longleftrightarrow>
     length (vertices m) = 3 * vertex_count m \<and> None \<notin> set (vertices m) \<and>
     length (triangles m) = 3 * triangle_count m \<and>
     (\<forall>c\<in>set (triangles m). \<exists>k. c = Some k \<and> k < vertex_count m)"

text \<open>
  The mesh as the raw-triple entry point has filled it when it calls
  \<^verbatim>\<open>mesh->computeTriangleNormals()\<close>: welded, allocated, positions and indices copied.
\<close>

definition filled_mesh :: "double Vector3 list \<Rightarrow> double Mesh_of option" where
  "filled_mesh source =
     (let n = u32 (length source div 3);
          (S, T) = weld_loop source n;
          vt = sort_by_index (set_elems S);
          nt = u32 (length T div 3);
          mesh = Mesh_new (u32 (length vt)) nt
      in Option.bind (copy_records vt 0 (vertices mesh)) (\<lambda>arr.
           map_option (\<lambda>tr. mesh\<lparr>vertices := arr, triangles := tr\<rparr>)
             (std_copy T (triangles mesh))))"

text \<open>The mesh of a point sequence welded in first-discovery order.\<close>

definition welded_result :: "double Vector3 list \<Rightarrow> double Mesh_of option" where
  "welded_result pts =
     finish_mesh_d
       ((Mesh_new (length (first_seen pts)) (length pts div 3))
          \<lparr>vertices := concat (map flat3 (first_seen pts))\<rparr>)
       (map (first_index (first_seen pts)) pts)"

text \<open>Two triangles on four distinct points, two of them repeated.\<close>

definition example_points :: "double Vector3 list" where
  "example_points =
     [(Val 3, 0, 0), (1, 0, 0), (0, 1, 0), (1, 0, 0), (Val (- 5), 0, 0), (Val 3, 0, 0)]"

text \<open>
  One triangle whose second point has a NaN coordinate, and one whose first point has
  one.
\<close>

definition nan_second :: "double Vector3 list" where
  "nan_second = [(1, 0, 0), (NaN, 0, 0), (Val 2, 0, 0)]"


text \<open>Component-wise multiplication by the scale triple.\<close>

fun cwise_mul :: "Vector3d \<Rightarrow> Vector3d \<Rightarrow> Vector3d" where
  "cwise_mul (a1, a2, a3) (s1, s2, s3) = (a1 * s1, a2 * s2, a3 * s3)"

text \<open>The vertices of the meshes attached to a node, in order.\<close>

definition node_vertices :: "aiScene \<Rightarrow> nat list \<Rightarrow> aiVector3D list" where
  "node_vertices scene ms = concat (map (\<lambda>k. mVertices (mMeshes scene ! k)) ms)"

text \<open>
  A root with the identity transform and no geometry, whose single child holds the
  vertex \<open>(1, 0, 0)\<close> under a translation by \<open>(2, 0, 0)\<close>.
\<close>

definition example_child :: aiNode where
  "example_child = aiNode (translation 2 0 0) [0] []"

definition example_scene :: aiScene where
  "example_scene =
     \<lparr>mRootNode = aiNode aiMatrix4x4_identity [] [example_child],
      mMeshes = [\<lparr>mVertices = [(1, 0, 0)], mFaces = []\<rparr>]\<rparr>"

text \<open>A scene of one node with one triangle, and one whose only mesh has no face.\<close>

definition triangle_scene :: aiScene where
  "triangle_scene =
     \<lparr>mRootNode = aiNode aiMatrix4x4_identity [0] [],
      mMeshes = [\<lparr>mVertices = [(0, 0, 0), (1, 0, 0), (0, 1, 0)],
                 mFaces = [\<lparr>mIndices = [0, 1, 2]\<rparr>]\<rparr>]\<rparr>"




text \<open>The eight corners of a box with half extents \<open>hx\<close>, \<open>hy\<close>, \<open>hz\<close>, flat.\<close>

definition box_corners :: "real \<Rightarrow> real \<Rightarrow> real \<Rightarrow> real list" where
  "box_corners hx hy hz =
     [- hx, - hy, - hz,
      hx, - hy, - hz,
      hx, - hy, hz,
      - hx, - hy, hz,
      - hx, hy, hz,
      - hx, hy, - hz,
      hx, hy, hz,
      hx, hy, - hz]"

section \<open>Lemmas: the vertex set\<close>

lemma u32_id: "n < 4294967296 \<Longrightarrow> u32 n = n"
  by (simp add: u32_def)

lemma double_literals [simp]:
  "(0::double) \<noteq> 1" "(1::double) \<noteq> 0" "(0::double) \<noteq> NaN" "(1::double) \<noteq> NaN"
  "NaN \<noteq> (0::double)" "NaN \<noteq> (1::double)"
  "Val a = 0 \<longleftrightarrow> a = 0" "Val a = 1 \<longleftrightarrow> a = 1" "0 = Val a \<longleftrightarrow> a = 0" "1 = Val a \<longleftrightarrow> a = 1"
  by (auto simp: zero_double_def one_double_def)

lemma set_size_elems: "set_size t = length (set_elems t)"
  by (induction t) simp_all

lemma finite_recordE:
  assumes "finite_record v"
  obtains a b c where "x v = Val a" "y v = Val b" "z v = Val c"
  using assms unfolding finite_record_def
  by (cases "x v"; cases "y v"; cases "z v") auto

lemma lt_irrefl: "\<not> ltLocalVertexValue a a"
  by (cases "x a"; cases "y a"; cases "z a") (simp_all add: ltLocalVertexValue_def)

lemma lt_trans:
  assumes "finite_record a" "finite_record b" "finite_record c"
    and "ltLocalVertexValue a b" "ltLocalVertexValue b c"
  shows "ltLocalVertexValue a c"
proof -
  from assms(1) obtain a1 a2 a3 where a: "x a = Val a1" "y a = Val a2" "z a = Val a3"
    by (rule finite_recordE)
  from assms(2) obtain b1 b2 b3 where b: "x b = Val b1" "y b = Val b2" "z b = Val b3"
    by (rule finite_recordE)
  from assms(3) obtain c1 c2 c3 where c: "x c = Val c1" "y c = Val c2" "z c = Val c3"
    by (rule finite_recordE)
  from assms(4,5) show ?thesis
    by (simp add: ltLocalVertexValue_def a b c split: if_splits)
qed

lemma lt_equiv_iff:
  assumes "finite_record e" "finite_record k"
  shows "(\<not> ltLocalVertexValue e k \<and> \<not> ltLocalVertexValue k e) \<longleftrightarrow>
         (x e = x k \<and> y e = y k \<and> z e = z k)"
proof -
  from assms(1) obtain a1 a2 a3 where a: "x e = Val a1" "y e = Val a2" "z e = Val a3"
    by (rule finite_recordE)
  from assms(2) obtain b1 b2 b3 where b: "x k = Val b1" "y k = Val b2" "z k = Val b3"
    by (rule finite_recordE)
  show ?thesis by (auto simp: ltLocalVertexValue_def a b)
qed

lemma lt_asym:
  assumes "finite_record a" "finite_record b" "ltLocalVertexValue a b"
  shows "\<not> ltLocalVertexValue b a"
  using lt_trans[OF assms(1,2,1) assms(3)] lt_irrefl[of a] by blast

text \<open>Rebalancing does not change the order of the elements.\<close>

lemma set_elems_attach:
  "set_elems (attach f t) =
     left_of [f] @ set_elems t @ right_of [f]"
proof -
  obtain d c e sib where f: "f = (d, c, e, sib)" by (cases f) auto
  show ?thesis by (cases d) (simp_all add: f)
qed

lemma set_elems_rebuild: "set_elems (rebuild p t) = left_of p @ set_elems t @ right_of p"
proof (induction p arbitrary: t)
  case Nil
  then show ?case by (simp add: rebuild_def)
next
  case (Cons f p)
  obtain d c e sib where f: "f = (d, c, e, sib)" by (cases f) auto
  have "rebuild (f # p) t = rebuild p (attach f t)" by (simp add: rebuild_def)
  then show ?case by (cases d) (simp_all add: Cons.IH f)
qed

lemma set_elems_rebalance: "set_elems (rebalance t p) = left_of p @ set_elems t @ right_of p"
proof (induction t p rule: rebalance.induct)
  case (4 t dp ep sp dg cg eg ul ue ur rest)
  then show ?case by (cases dp; cases dg) simp_all
qed (simp_all add: set_elems_rebuild set_elems_attach)

lemma set_elems_blacken [simp]: "set_elems (blacken t) = set_elems t"
  by (cases t) simp_all

lemma descend_elems:
  "left_of (descend t k p) @ right_of (descend t k p) = left_of p @ set_elems t @ right_of p"
  by (induction t arbitrary: p) simp_all

lemma set_elems_insert_new:
  assumes "M_get_insert_unique_pos t k"
  shows "set_elems (set_insert k t) = left_of (descend t k []) @ k # right_of (descend t k [])"
  using assms by (simp add: set_insert_def set_elems_rebalance)

lemma mset_set_insert:
  "mset (set_elems (set_insert k t)) =
     (if M_get_insert_unique_pos t k then add_mset k (mset (set_elems t)) else mset (set_elems t))"
proof (cases "M_get_insert_unique_pos t k")
  case True
  have "mset (left_of (descend t k []) @ right_of (descend t k [])) = mset (set_elems t)"
    by (simp only: descend_elems) simp
  with True show ?thesis by (simp add: set_elems_insert_new)
next
  case False
  then show ?thesis by (simp add: set_insert_def)
qed

lemma sorted_set_Leaf [simp]: "sorted_set Leaf"
  by (simp add: sorted_set_def)

lemma sorted_set_Node:
  "sorted_set (Node c l e r) \<longleftrightarrow>
     sorted_set l \<and> sorted_set r \<and> finite_record e \<and>
     (\<forall>a\<in>set (set_elems l). ltLocalVertexValue a e) \<and>
     (\<forall>b\<in>set (set_elems r). ltLocalVertexValue e b) \<and>
     (\<forall>a\<in>set (set_elems l). \<forall>b\<in>set (set_elems r). ltLocalVertexValue a b)"
  unfolding sorted_set_def by (simp add: sorted_wrt_append ball_Un) blast

lemma lt_cong_left:
  "x a = x b \<Longrightarrow> y a = y b \<Longrightarrow> z a = z b \<Longrightarrow> ltLocalVertexValue a c = ltLocalVertexValue b c"
  by (simp add: ltLocalVertexValue_def)

lemma lt_cong_right:
  "x a = x b \<Longrightarrow> y a = y b \<Longrightarrow> z a = z b \<Longrightarrow> ltLocalVertexValue c a = ltLocalVertexValue c b"
  by (simp add: ltLocalVertexValue_def)

lemma lt_equiv_left:
  assumes "finite_record e" "finite_record k"
    and "\<not> ltLocalVertexValue e k" "\<not> ltLocalVertexValue k e"
  shows "ltLocalVertexValue a e = ltLocalVertexValue a k"
    and "ltLocalVertexValue e a = ltLocalVertexValue k a"
proof -
  from lt_equiv_iff[OF assms(1,2)] assms(3,4)
  have c: "x e = x k" "y e = y k" "z e = z k" by simp_all
  show "ltLocalVertexValue a e = ltLocalVertexValue a k" using c by (rule lt_cong_right)
  show "ltLocalVertexValue e a = ltLocalVertexValue k a" using c by (rule lt_cong_left)
qed

text \<open>\<^verbatim>\<open>find\<close> on a sorted set returns the element equivalent to the key, when there is one.\<close>

lemma M_lower_bound_sound:
  "M_lower_bound t cand k = Some j \<Longrightarrow>
     cand = Some j \<or> (j \<in> set (set_elems t) \<and> \<not> ltLocalVertexValue j k)"
proof (induction t arbitrary: cand)
  case Leaf
  then show ?case by simp
next
  case (Node c l e r)
  show ?case
  proof (cases "ltLocalVertexValue e k")
    case True
    with Node.prems have "M_lower_bound r cand k = Some j" by simp
    from Node.IH(2)[OF this] show ?thesis by auto
  next
    case False
    with Node.prems have "M_lower_bound l (Some e) k = Some j" by simp
    from Node.IH(1)[OF this] False show ?thesis by auto
  qed
qed

lemma set_find_sound:
  assumes "set_find t k = Some j"
  shows "j \<in> set (set_elems t) \<and> \<not> ltLocalVertexValue j k \<and> \<not> ltLocalVertexValue k j"
proof -
  from assms have lb: "M_lower_bound t None k = Some j" and nk: "\<not> ltLocalVertexValue k j"
    by (auto simp: set_find_def split: option.splits if_splits)
  from M_lower_bound_sound[OF lb] nk show ?thesis by simp
qed

lemma M_lower_bound_all_less:
  "\<forall>e\<in>set (set_elems t). ltLocalVertexValue e k \<Longrightarrow> M_lower_bound t cand k = cand"
  by (induction t arbitrary: cand) simp_all

lemma M_lower_bound_finds:
  assumes "sorted_set t" "finite_record k" "e \<in> set (set_elems t)"
    and "\<not> ltLocalVertexValue e k" "\<not> ltLocalVertexValue k e"
  shows "M_lower_bound t cand k = Some e"
  using assms(1,3)
proof (induction t arbitrary: cand)
  case Leaf
  then show ?case by simp
next
  case (Node c l e0 r)
  from Node.prems(1) have s: "sorted_set l" "sorted_set r" "finite_record e0"
    "\<forall>a\<in>set (set_elems l). ltLocalVertexValue a e0"
    "\<forall>b\<in>set (set_elems r). ltLocalVertexValue e0 b"
    by (simp_all add: sorted_set_Node)
  have fe: "finite_record e" using Node.prems by (auto simp: sorted_set_def)
  note eq = lt_equiv_left[OF fe assms(2) assms(4,5)]
  consider (left) "e \<in> set (set_elems l)" | (here) "e = e0" | (right) "e \<in> set (set_elems r)"
    using Node.prems(2) by auto
  then show ?case
  proof cases
    case left
    then have "ltLocalVertexValue e e0" using s(4) by simp
    then have "ltLocalVertexValue k e0" using eq(2) by simp
    moreover have "finite_record e0" by (rule s(3))
    ultimately have "\<not> ltLocalVertexValue e0 k" using lt_asym[OF assms(2) s(3)] by blast
    then show ?thesis using Node.IH(1)[OF s(1) left] by simp
  next
    case here
    have "\<forall>a\<in>set (set_elems l). ltLocalVertexValue a k"
      using s(4) eq(1) here by simp
    then have "M_lower_bound l (Some e0) k = Some e0" by (rule M_lower_bound_all_less)
    then show ?thesis using assms(4) here by simp
  next
    case right
    then have "ltLocalVertexValue e0 e" using s(5) by simp
    then have "ltLocalVertexValue e0 k" using eq(1) by simp
    then show ?thesis using Node.IH(2)[OF s(2) right] by simp
  qed
qed

lemma set_find_finds:
  assumes "sorted_set t" "finite_record k" "e \<in> set (set_elems t)"
    and "\<not> ltLocalVertexValue e k" "\<not> ltLocalVertexValue k e"
  shows "set_find t k = Some e"
  using M_lower_bound_finds[OF assms, of None] assms(5) by (simp add: set_find_def)

text \<open>\<^verbatim>\<open>insert\<close> of a key without an equivalent element keeps the set sorted.\<close>

lemma last_right_turn_sound:
  "last_right_turn t j k = Some r \<Longrightarrow>
     j = Some r \<or> (r \<in> set (set_elems t) \<and> \<not> ltLocalVertexValue k r)"
proof (induction t arbitrary: j)
  case Leaf
  then show ?case by simp
next
  case (Node c l e r')
  show ?case
  proof (cases "ltLocalVertexValue k e")
    case True
    with Node.prems have "last_right_turn l j k = Some r" by simp
    from Node.IH(1)[OF this] show ?thesis by auto
  next
    case False
    with Node.prems have "last_right_turn r' (Some e) k = Some r" by simp
    from Node.IH(2)[OF this] False show ?thesis by auto
  qed
qed

lemma unique_pos_new:
  assumes "\<forall>e\<in>set (set_elems t). ltLocalVertexValue k e \<or> ltLocalVertexValue e k"
  shows "M_get_insert_unique_pos t k"
proof (cases "last_right_turn t None k")
  case None
  then show ?thesis by (simp add: M_get_insert_unique_pos_def)
next
  case (Some r)
  from last_right_turn_sound[OF Some] assms have "ltLocalVertexValue r k" by auto
  with Some show ?thesis by (simp add: M_get_insert_unique_pos_def)
qed

lemma descend_bounds:
  assumes "sorted_set t" "finite_record k"
    and "\<forall>e\<in>set (set_elems t). ltLocalVertexValue k e \<or> ltLocalVertexValue e k"
    and "\<forall>e\<in>set (left_of p). ltLocalVertexValue e k"
    and "\<forall>e\<in>set (right_of p). ltLocalVertexValue k e"
  shows "(\<forall>e\<in>set (left_of (descend t k p)). ltLocalVertexValue e k) \<and>
         (\<forall>e\<in>set (right_of (descend t k p)). ltLocalVertexValue k e)"
  using assms(1,3,4,5)
proof (induction t arbitrary: p)
  case Leaf
  then show ?case by simp
next
  case (Node c l e r)
  from Node.prems(1) have s: "sorted_set l" "sorted_set r" "finite_record e"
    "\<forall>a\<in>set (set_elems l). ltLocalVertexValue a e"
    "\<forall>b\<in>set (set_elems r). ltLocalVertexValue e b"
    by (simp_all add: sorted_set_Node)
  have fl: "\<forall>a\<in>set (set_elems l). finite_record a" and fr: "\<forall>b\<in>set (set_elems r). finite_record b"
    using s(1,2) by (simp_all add: sorted_set_def)
  have nl: "\<forall>a\<in>set (set_elems l). ltLocalVertexValue k a \<or> ltLocalVertexValue a k"
    and nr: "\<forall>b\<in>set (set_elems r). ltLocalVertexValue k b \<or> ltLocalVertexValue b k"
    using Node.prems(2) by simp_all
  show ?case
  proof (cases "ltLocalVertexValue k e")
    case True
    have kr: "\<forall>b\<in>set (set_elems r). ltLocalVertexValue k b"
    proof
      fix b assume b: "b \<in> set (set_elems r)"
      then have "finite_record b" "ltLocalVertexValue e b" using fr s(5) by simp_all
      with lt_trans[OF assms(2) s(3) _ True] show "ltLocalVertexValue k b" by blast
    qed
    have rb: "\<forall>b\<in>set (right_of ((Left_child, c, e, r) # p)). ltLocalVertexValue k b"
      using True kr Node.prems(4) by (simp add: ball_Un)
    have lb: "\<forall>a\<in>set (left_of ((Left_child, c, e, r) # p)). ltLocalVertexValue a k"
      using Node.prems(3) by simp
    have d: "descend (Node c l e r) k p = descend l k ((Left_child, c, e, r) # p)"
      using True by simp
    show ?thesis unfolding d by (rule Node.IH(1)[OF s(1) nl lb rb])
  next
    case False
    with Node.prems(2) have ek: "ltLocalVertexValue e k" by simp
    have lk: "\<forall>a\<in>set (set_elems l). ltLocalVertexValue a k"
    proof
      fix a assume a: "a \<in> set (set_elems l)"
      then have "finite_record a" "ltLocalVertexValue a e" using fl s(4) by simp_all
      then show "ltLocalVertexValue a k" using lt_trans[OF _ s(3) assms(2) _ ek] by blast
    qed
    have lb: "\<forall>a\<in>set (left_of ((Right_child, c, e, l) # p)). ltLocalVertexValue a k"
      using ek lk Node.prems(3) by (simp add: ball_Un)
    have rb: "\<forall>b\<in>set (right_of ((Right_child, c, e, l) # p)). ltLocalVertexValue k b"
      using Node.prems(4) by simp
    have d: "descend (Node c l e r) k p = descend r k ((Right_child, c, e, l) # p)"
      using False by simp
    show ?thesis unfolding d by (rule Node.IH(2)[OF s(2) nr lb rb])
  qed
qed

lemma sorted_set_insert:
  assumes "sorted_set t" "finite_record k"
    and "\<forall>e\<in>set (set_elems t). ltLocalVertexValue k e \<or> ltLocalVertexValue e k"
  shows "sorted_set (set_insert k t)"
proof -
  let ?d = "descend t k []"
  have el: "set_elems (set_insert k t) = left_of ?d @ k # right_of ?d"
    using unique_pos_new[OF assms(3)] by (rule set_elems_insert_new)
  have split: "left_of ?d @ right_of ?d = set_elems t"
    using descend_elems[of t k "[]"] by simp
  from descend_bounds[OF assms, of "[]"] have
    b: "\<forall>e\<in>set (left_of ?d). ltLocalVertexValue e k" "\<forall>e\<in>set (right_of ?d). ltLocalVertexValue k e"
    by simp_all
  have "sorted_wrt ltLocalVertexValue (left_of ?d @ right_of ?d)"
    using assms(1) by (simp add: split sorted_set_def)
  then have "sorted_wrt ltLocalVertexValue (left_of ?d @ k # right_of ?d)"
    using b by (simp add: sorted_wrt_append)
  moreover have "\<forall>e\<in>set (left_of ?d @ k # right_of ?d). finite_record e"
  proof -
    have "set (left_of ?d @ k # right_of ?d) = insert k (set (left_of ?d @ right_of ?d))" by auto
    then show ?thesis using assms(1,2) by (simp add: split sorted_set_def)
  qed
  ultimately show ?thesis by (simp add: sorted_set_def el)
qed

text \<open>
  Every set that the welding loop builds has a black root, so the loop of the
  rebalancing never meets a red parent without a parent.
\<close>

lemma black_root_blacken [simp]: "black_root (blacken t)"
  by (cases t) simp_all

lemma black_root_insert: "black_root t \<Longrightarrow> black_root (set_insert k t)"
  by (simp add: set_insert_def)

lemma black_root_weld_vertex: "black_root (fst st) \<Longrightarrow> black_root (fst (weld_vertex p st))"
  by (cases st) (simp add: weld_vertex_def Let_def black_root_insert split: option.splits)

lemma black_root_weld_loop: "black_root (fst (weld_loop source n))"
proof (induction n)
  case 0
  then show ?case by (simp add: weld_loop_def)
next
  case (Suc n)
  have "weld_loop source (Suc n) = weld_triple source n (weld_loop source n)"
    by (simp add: weld_loop_def)
  then show ?case
    using Suc by (simp add: weld_triple_def Let_def black_root_weld_vertex)
qed

text \<open>The records of points without NaN.\<close>

lemma finite_record_of [simp]:
  "finite_record (LocalVertexType_of p) = no_nan p"
  "finite_record (vertex_record p i) = no_nan p"
  by (simp_all add: finite_record_def no_nan_def vertex_record_def LocalVertexType_of_def
      split: prod.splits)

lemma vertex_record_sel [simp]:
  "x (vertex_record (a, b, c) i) = a" "y (vertex_record (a, b, c) i) = b"
  "z (vertex_record (a, b, c) i) = c" "index (vertex_record v i) = i"
  by (simp_all add: vertex_record_def LocalVertexType_of_def split: prod.splits)

lemma vertex_record_eq_iff [simp]:
  "vertex_record v i = vertex_record w j \<longleftrightarrow> v = w \<and> i = j"
  by (cases v; cases w) (auto simp: vertex_record_def LocalVertexType_of_def)

lemma equiv_vertex_record:
  assumes "no_nan v" "no_nan w"
  shows "(\<not> ltLocalVertexValue (vertex_record v i) (LocalVertexType_of w) \<and>
    \<not> ltLocalVertexValue (LocalVertexType_of w) (vertex_record v i)) \<longleftrightarrow> v = w"
proof -
  have "finite_record (vertex_record v i)" "finite_record (LocalVertexType_of w)"
    using assms by simp_all
  from lt_equiv_iff[OF this] show ?thesis
    by (cases v; cases w) (simp add: LocalVertexType_of_def)
qed

lemma equiv_vertex_record2:
  assumes "no_nan v" "no_nan w"
  shows "(\<not> ltLocalVertexValue (vertex_record v i) (vertex_record w j) \<and>
    \<not> ltLocalVertexValue (vertex_record w j) (vertex_record v i)) \<longleftrightarrow> v = w"
proof -
  have "finite_record (vertex_record v i)" "finite_record (vertex_record w j)"
    using assms by simp_all
  from lt_equiv_iff[OF this] show ?thesis
    by (cases v; cases w) simp
qed

lemma set_vertex_table:
  "set (vertex_table ds) = (\<lambda>i. vertex_record (ds ! i) i) ` {0..<length ds}"
  by (simp add: vertex_table_def)

lemma vertex_table_snoc:
  "vertex_table (ds @ [p]) = vertex_table ds @ [vertex_record p (length ds)]"
  by (simp add: vertex_table_def nth_append)

lemma length_vertex_table [simp]: "length (vertex_table ds) = length ds"
  by (simp add: vertex_table_def)

lemma first_index_less: "p \<in> set ds \<Longrightarrow> first_index ds p < length ds"
  by (induction ds) auto

lemma nth_first_index: "p \<in> set ds \<Longrightarrow> ds ! first_index ds p = p"
  by (induction ds) auto

lemma first_index_nth: "distinct ds \<Longrightarrow> i < length ds \<Longrightarrow> first_index ds (ds ! i) = i"
proof (induction ds arbitrary: i)
  case Nil
  then show ?case by simp
next
  case (Cons q qs)
  then show ?case by (cases i) auto
qed

lemma first_index_append: "p \<in> set ds \<Longrightarrow> first_index (ds @ es) p = first_index ds p"
  by (induction ds) auto

lemma first_index_snoc_new: "p \<notin> set ds \<Longrightarrow> first_index (ds @ [p]) p = length ds"
  by (induction ds) auto

lemma inv_weld_elems:
  assumes "inv_weld S ds" and "e \<in> set (set_elems S)"
  shows "\<exists>i<length ds. e = vertex_record (ds ! i) i \<and> no_nan (ds ! i)"
proof -
  from assms(1) have "set (set_elems S) = set (vertex_table ds)"
    unfolding inv_weld_def using mset_eq_setD by blast
  with assms(2) obtain i where i: "i < length ds" "e = vertex_record (ds ! i) i"
    by (auto simp: set_vertex_table)
  from assms have "finite_record e" unfolding inv_weld_def sorted_set_def by blast
  with i show ?thesis by auto
qed

lemma inv_weld_no_nan: "inv_weld S ds \<Longrightarrow> p \<in> set ds \<Longrightarrow> no_nan p"
proof -
  assume inv: "inv_weld S ds" and p: "p \<in> set ds"
  then obtain i where i: "i < length ds" "ds ! i = p" by (auto simp: in_set_conv_nth)
  from inv have "set (set_elems S) = set (vertex_table ds)"
    unfolding inv_weld_def using mset_eq_setD by blast
  with i have "vertex_record p i \<in> set (set_elems S)" by (auto simp: set_vertex_table)
  with inv have "finite_record (vertex_record p i)"
    unfolding inv_weld_def sorted_set_def by blast
  then show "no_nan p" by simp
qed

lemma set_find_table:
  assumes inv: "inv_weld S ds" and fin: "no_nan p"
  shows "set_find S (LocalVertexType_of p) =
           (if p \<in> set ds then Some (vertex_record p (first_index ds p)) else None)"
proof (cases "p \<in> set ds")
  case False
  have "set_find S (LocalVertexType_of p) = None"
  proof (rule ccontr)
    assume "set_find S (LocalVertexType_of p) \<noteq> None"
    then obtain j where j: "set_find S (LocalVertexType_of p) = Some j" by auto
    from set_find_sound[OF j] have jin: "j \<in> set (set_elems S)"
      and eq: "\<not> ltLocalVertexValue j (LocalVertexType_of p) \<and>
               \<not> ltLocalVertexValue (LocalVertexType_of p) j" by simp_all
    from inv_weld_elems[OF inv jin] obtain i where
      i: "i < length ds" "j = vertex_record (ds ! i) i" "no_nan (ds ! i)" by blast
    from eq have "ds ! i = p" unfolding i(2) by (simp add: equiv_vertex_record[OF i(3) fin])
    with i(1) have "p \<in> set ds" by auto
    with False show False by simp
  qed
  with False show ?thesis by simp
next
  case True
  from inv have eq: "set (set_elems S) = set (vertex_table ds)"
    unfolding inv_weld_def using mset_eq_setD by blast
  have "first_index ds p \<in> {0..<length ds}"
    using True by (simp add: first_index_less)
  then have "vertex_record (ds ! first_index ds p) (first_index ds p) \<in> set (set_elems S)"
    unfolding eq set_vertex_table by (rule imageI)
  then have mem: "vertex_record p (first_index ds p) \<in> set (set_elems S)"
    using True by (simp add: nth_first_index)
  have e: "\<not> ltLocalVertexValue (vertex_record p (first_index ds p)) (LocalVertexType_of p)"
      "\<not> ltLocalVertexValue (LocalVertexType_of p) (vertex_record p (first_index ds p))"
    using equiv_vertex_record[OF fin fin, of "first_index ds p"] by simp_all
  have srt: "sorted_set S" using inv by (simp add: inv_weld_def)
  have fk: "finite_record (LocalVertexType_of p)" using fin by simp
  from set_find_finds[OF srt fk mem e] True show ?thesis by simp
qed

lemma inv_weld_length: "inv_weld S ds \<Longrightarrow> set_size S = length ds"
  unfolding inv_weld_def using mset_eq_length[of "set_elems S" "vertex_table ds"]
  by (simp add: set_size_elems)

lemma discover_old: "p \<in> set ds \<Longrightarrow> discover p ds = ds"
  by (simp add: discover_def)

lemma discover_new: "p \<notin> set ds \<Longrightarrow> discover p ds = ds @ [p]"
  by (simp add: discover_def)

lemma distinct_discover: "distinct ds \<Longrightarrow> distinct (discover p ds)"
  by (simp add: discover_def)

lemma length_discover: "length (discover p ds) \<le> Suc (length ds)"
  by (simp add: discover_def)

text \<open>A point that is not in the discovery list has no equivalent element in the set.\<close>

lemma new_point_separated:
  assumes inv: "inv_weld S ds" and fin: "no_nan p" and new: "p \<notin> set ds"
  shows "\<forall>e\<in>set (set_elems S). ltLocalVertexValue (vertex_record p k) e \<or>
       ltLocalVertexValue e (vertex_record p k)"
proof
  fix e assume e: "e \<in> set (set_elems S)"
  from inv_weld_elems[OF inv e] obtain i where
    i: "i < length ds" "e = vertex_record (ds ! i) i" "no_nan (ds ! i)" by blast
  then have "ds ! i \<noteq> p" using new by auto
  then show "ltLocalVertexValue (vertex_record p k) e \<or> ltLocalVertexValue e (vertex_record p k)"
    using equiv_vertex_record2[OF i(3) fin, of i k] i(2) by blast
qed

lemma inv_weld_insert:
  assumes inv: "inv_weld S ds" and fin: "no_nan p" and new: "p \<notin> set ds"
  shows "inv_weld (set_insert (vertex_record p (length ds)) S) (ds @ [p])"
proof -
  note sep = new_point_separated[OF inv fin new, of "length ds"]
  have srt: "sorted_set S" using inv by (simp add: inv_weld_def)
  have fk: "finite_record (vertex_record p (length ds))" using fin by simp
  have "mset (set_elems (set_insert (vertex_record p (length ds)) S)) = mset (vertex_table (ds @ [p]))"
    using unique_pos_new[OF sep] inv
    by (simp add: mset_set_insert vertex_table_snoc inv_weld_def)
  moreover have "distinct (ds @ [p])" using inv new by (simp add: inv_weld_def)
  moreover have "sorted_set (set_insert (vertex_record p (length ds)) S)"
    by (rule sorted_set_insert[OF srt fk sep])
  ultimately show ?thesis by (simp add: inv_weld_def)
qed

lemma weld_vertex_step:
  assumes inv: "inv_weld S ds" and fin: "no_nan p" and small: "length ds < 4294967296"
  shows "\<exists>S'. weld_vertex p (S, T) = (S', T @ [first_index (discover p ds) p]) \<and>
              inv_weld S' (discover p ds)"
proof (cases "p \<in> set ds")
  case True
  have find: "set_find S (LocalVertexType_of p) = Some (vertex_record p (first_index ds p))"
    using True by (simp add: set_find_table[OF inv fin])
  have "discover p ds = ds" using True by (simp add: discover_def)
  with find inv show ?thesis
    by (simp add: weld_vertex_def)
next
  case False
  have find: "set_find S (LocalVertexType_of p) = None"
    using False by (simp add: set_find_table[OF inv fin])
  have len: "set_size S = length ds" using inv by (rule inv_weld_length)
  have rec: "(LocalVertexType_of p)\<lparr>index := u32 (set_size S)\<rparr> = vertex_record p (length ds)"
    using small len by (simp add: vertex_record_def u32_id)
  have d: "discover p ds = ds @ [p]" using False by (simp add: discover_def)
  have "inv_weld (set_insert (vertex_record p (length ds)) S) (discover p ds)"
    unfolding d by (rule inv_weld_insert[OF inv fin False])
  moreover have "first_index (discover p ds) p = length ds"
    using False by (simp add: d first_index_snoc_new)
  ultimately show ?thesis
    using find rec by (simp add: weld_vertex_def Let_def)
qed

lemma length_fold_discover: "length (fold discover ps ds) \<le> length ds + length ps"
proof (induction ps arbitrary: ds)
  case Nil
  then show ?case by simp
next
  case (Cons p ps)
  have "length (fold discover ps (discover p ds)) \<le> length (discover p ds) + length ps"
    by (rule Cons.IH)
  also have "\<dots> \<le> Suc (length ds) + length ps"
    using length_discover[of p ds] by simp
  finally show ?case by simp
qed

lemma set_discover: "set (discover p ds) = insert p (set ds)"
  by (auto simp: discover_def)

lemma set_fold_discover: "set (fold discover ps ds) = set ds \<union> set ps"
  by (induction ps arbitrary: ds) (auto simp: set_discover)

lemma fold_discover_prefix: "\<exists>es. fold discover ps ds = ds @ es"
proof (induction ps arbitrary: ds)
  case Nil
  then show ?case by simp
next
  case (Cons p ps)
  obtain es where "fold discover ps (discover p ds) = discover p ds @ es"
    using Cons.IH by blast
  then show ?case by (cases "p \<in> set ds") (simp_all add: discover_old discover_new)
qed

lemma first_index_fold_discover:
  "p \<in> set ds \<Longrightarrow> first_index (fold discover ps ds) p = first_index ds p"
  using fold_discover_prefix[of ps ds] by (auto simp: first_index_append)

lemma fold_weld_vertex:
  assumes "inv_weld S ds" and "\<forall>p\<in>set ps. no_nan p" and "length ds + length ps < 4294967296"
  shows "\<exists>S'. fold weld_vertex ps (S, T) = (S', T @ map (first_index (fold discover ps ds)) ps) \<and>
              inv_weld S' (fold discover ps ds)"
  using assms
proof (induction ps arbitrary: S ds T)
  case Nil
  then show ?case by simp
next
  case (Cons p ps)
  from Cons.prems have small: "length ds < 4294967296" and fin: "no_nan p"
    and fins: "\<forall>q\<in>set ps. no_nan q" by simp_all
  from weld_vertex_step[OF Cons.prems(1) fin small, of T] obtain S1 where
    S1: "weld_vertex p (S, T) = (S1, T @ [first_index (discover p ds) p])"
      "inv_weld S1 (discover p ds)" by blast
  have "length (discover p ds) + length ps < 4294967296"
    using Cons.prems(3) length_discover[of p ds] by simp
  from Cons.IH[OF S1(2) fins this, of "T @ [first_index (discover p ds) p]"] obtain S' where
    S': "fold weld_vertex ps (S1, T @ [first_index (discover p ds) p]) =
           (S', (T @ [first_index (discover p ds) p]) @
                map (first_index (fold discover ps (discover p ds))) ps)"
      "inv_weld S' (fold discover ps (discover p ds))" by blast
  have "p \<in> set (discover p ds)" by (simp add: discover_def)
  then have "first_index (fold discover ps (discover p ds)) p = first_index (discover p ds) p"
    by (rule first_index_fold_discover)
  with S1 S' show ?case by simp
qed

lemma fold_discover_first_seen:
  "fold discover ps ds = ds @ filter (\<lambda>q. q \<notin> set ds) (first_seen ps)"
proof (induction ps arbitrary: ds)
  case Nil
  then show ?case by simp
next
  case (Cons p ps)
  show ?case
  proof (cases "p \<in> set ds")
    case True
    then have "filter (\<lambda>q. q \<notin> set ds) (filter (\<lambda>q. q \<noteq> p) (first_seen ps)) =
       filter (\<lambda>q. q \<notin> set ds) (first_seen ps)"
      by (auto intro: filter_cong)
    with True show ?thesis by (simp add: Cons.IH discover_old)
  next
    case False
    have "filter (\<lambda>q. q \<notin> set (ds @ [p])) (first_seen ps) =
       filter (\<lambda>q. q \<notin> set ds) (filter (\<lambda>q. q \<noteq> p) (first_seen ps))"
      by (auto intro: filter_cong)
    with False show ?thesis by (simp add: Cons.IH discover_new)
  qed
qed

lemma fold_discover_Nil: "fold discover ps [] = first_seen ps"
  by (simp add: fold_discover_first_seen)

lemma set_first_seen [simp]: "set (first_seen ps) = set ps"
  by (induction ps) auto

lemma distinct_first_seen [simp]: "distinct (first_seen ps)"
  by (induction ps) auto

lemma length_first_seen: "length (first_seen ps) = card (set ps)"
  using distinct_card[of "first_seen ps"] by simp

lemma length_first_seen_le: "length (first_seen ps) \<le> length ps"
  using length_fold_discover[of ps "[]"] by (simp add: fold_discover_Nil)

lemma first_seen_append:
  "first_seen (ps @ qs) = first_seen ps @ filter (\<lambda>q. q \<notin> set ps) (first_seen qs)"
proof -
  have "first_seen (ps @ qs) = fold discover qs (fold discover ps [])"
    by (simp add: fold_discover_Nil[symmetric])
  then show ?thesis by (simp add: fold_discover_first_seen fold_discover_Nil)
qed

section \<open>Lemmas: the welding loop\<close>

text \<open>
  Every read \<^verbatim>\<open>source[i3]\<close> of the loop is inside the input, whatever its size.
\<close>

lemma source_reads_in_range:
  assumes "3 \<le> length source" and "i < u32 (length source div 3)"
  shows "u32 (i * 3) < length source \<and> u32 (u32 (i * 3) + 1) < length source \<and>
         u32 (u32 (u32 (i * 3) + 1) + 1) < length source"
proof (cases "length source < 4294967296")
  case True
  then have n: "u32 (length source div 3) = length source div 3" by (simp add: u32_id)
  with assms(2) have i: "3 * i + 2 < length source" by simp
  then have "3 * i + 2 < 4294967296" using True by simp
  then have "u32 (i * 3) = 3 * i" "u32 (3 * i + 1) = 3 * i + 1" "u32 (3 * i + 1 + 1) = 3 * i + 2"
    by (simp_all add: u32_id mult.commute)
  with i show ?thesis by simp
next
  case False
  have "u32 k < 4294967296" for k by (simp add: u32_def)
  with False show ?thesis by (meson less_le_trans not_less)
qed

lemma weld_triple_small:
  assumes "3 * i + 2 < 4294967296"
  shows "weld_triple source i st =
     weld_vertex (source ! (3 * i + 2)) (weld_vertex (source ! (3 * i + 1)) (weld_vertex (source ! (3 * i)) st))"
proof -
  have "u32 (i * 3) = 3 * i" using assms by (simp add: u32_id mult.commute)
  moreover have "u32 (3 * i + 1) = 3 * i + 1" using assms by (simp add: u32_id)
  moreover have "u32 (3 * i + 1 + 1) = 3 * i + 2" using assms by (simp add: u32_id)
  ultimately show ?thesis by (simp add: weld_triple_def Let_def)
qed

lemma take_three_more:
  assumes "3 * n + 3 \<le> length source"
  shows "take (3 * Suc n) source =
     take (3 * n) source @ [source ! (3 * n), source ! (3 * n + 1), source ! (3 * n + 2)]"
proof -
  have "3 * Suc n = Suc (Suc (Suc (3 * n)))" by simp
  then have "take (3 * Suc n) source = take (Suc (Suc (Suc (3 * n)))) source" by (rule arg_cong)
  also have "\<dots> = take (3 * n) source @ [source ! (3 * n), source ! (3 * n + 1), source ! (3 * n + 2)]"
    using assms by (simp add: take_Suc_conv_app_nth)
  finally show ?thesis .
qed

lemma weld_loop_fold:
  assumes "3 * n \<le> length source" and "3 * n < 4294967296"
  shows "weld_loop source n = fold weld_vertex (take (3 * n) source) (Leaf, [])"
  using assms
proof (induction n)
  case 0
  then show ?case by (simp add: weld_loop_def)
next
  case (Suc n)
  then have IH: "weld_loop source n = fold weld_vertex (take (3 * n) source) (Leaf, [])" by simp
  have small: "3 * n + 2 < 4294967296" using Suc.prems by simp
  have "weld_loop source (Suc n) = weld_triple source n (weld_loop source n)"
    by (simp add: weld_loop_def)
  also have "\<dots> = fold weld_vertex [source ! (3 * n), source ! (3 * n + 1), source ! (3 * n + 2)]
       (fold weld_vertex (take (3 * n) source) (Leaf, []))"
    by (simp add: weld_triple_small[OF small] IH)
  also have "\<dots> = fold weld_vertex (take (3 * n) source @
       [source ! (3 * n), source ! (3 * n + 1), source ! (3 * n + 2)]) (Leaf, [])"
    by simp
  also have "\<dots> = fold weld_vertex (take (3 * Suc n) source) (Leaf, [])"
  proof -
    have "3 * n + 3 \<le> length source" using Suc.prems by simp
    from take_three_more[OF this] show ?thesis by (rule arg_cong[where f="\<lambda>l. fold weld_vertex l (Leaf, [])", symmetric])
  qed
  finally show ?case .
qed

lemma inv_weld_empty: "inv_weld Leaf []"
  by (simp add: inv_weld_def vertex_table_def)

lemma sorted_index_vertex_table: "sorted (map index (vertex_table ds))"
proof -
  have "map index (vertex_table ds) = [0..<length ds]"
    by (simp add: vertex_table_def map_idI)
  then show ?thesis by simp
qed

lemma inj_index_vertex_table: "inj_on index (set (vertex_table ds))"
  by (auto simp: set_vertex_table inj_on_def)

lemma insert_by_index_insort: "insert_by_index v ws = insort_key index v ws"
  by (induction ws) (auto simp: ltLocalVertexIndex_def)

lemma sort_by_index_sort_key: "sort_by_index vt = sort_key index vt"
  by (induction vt) (simp_all add: sort_by_index_def insert_by_index_insort sort_key_def)

lemma sort_by_index_table:
  assumes "inv_weld S ds"
  shows "sort_by_index (set_elems S) = vertex_table ds"
proof -
  have m: "mset (set_elems S) = mset (vertex_table ds)" using assms by (simp add: inv_weld_def)
  then have "set (set_elems S) = set (vertex_table ds)" by (rule mset_eq_setD)
  then have "inj_on index (set (set_elems S))" using inj_index_vertex_table by simp
  from sort_key_inj_key_eq[OF m this sorted_index_vertex_table] show ?thesis
    by (simp add: sort_by_index_sort_key)
qed

text \<open>The welding loop in closed form.\<close>

lemma weld_loop_closed:
  assumes "3 * n \<le> length source" and "3 * n < 4294967296"
    and "\<forall>p\<in>set (take (3 * n) source). no_nan p"
  shows "\<exists>S. weld_loop source n =
            (S, map (first_index (first_seen (take (3 * n) source))) (take (3 * n) source)) \<and>
          sort_by_index (set_elems S) = vertex_table (first_seen (take (3 * n) source))"
proof -
  have len: "length ([]::double Vector3 list) + length (take (3 * n) source) < 4294967296"
    using assms by simp
  from fold_weld_vertex[OF inv_weld_empty assms(3) len, of "[]"] obtain S where
    S: "fold weld_vertex (take (3 * n) source) (Leaf, []) =
          (S, [] @ map (first_index (fold discover (take (3 * n) source) [])) (take (3 * n) source))"
       "inv_weld S (fold discover (take (3 * n) source) [])" by blast
  then show ?thesis
    using weld_loop_fold[OF assms(1,2)] sort_by_index_table[OF S(2)]
    by (simp add: fold_discover_Nil)
qed

section \<open>Lemmas: the copy loops\<close>

lemma store_xyz_append:
  assumes "length pre = i3" and "i3 + 2 < 4294967296"
  shows "store_xyz (pre @ c0 # c1 # c2 # rest) i3 (a, b, c) =
           Some (pre @ Some a # Some b # Some c # rest)"
proof -
  have u1: "u32 (i3 + 1) = length pre + 1" and u2: "u32 (i3 + 2) = length pre + 2"
    using assms by (simp_all add: u32_id)
  have s0: "store (pre @ c0 # c1 # c2 # rest) i3 a = Some (pre @ Some a # c1 # c2 # rest)"
    using assms(1)[symmetric] by (simp add: store_def)
  have s1: "store (pre @ Some a # c1 # c2 # rest) (length pre + 1) b =
      Some (pre @ Some a # Some b # c2 # rest)"
    by (simp add: store_def list_update_append)
  have s2: "store (pre @ Some a # Some b # c2 # rest) (length pre + 2) c =
      Some (pre @ Some a # Some b # Some c # rest)"
    by (simp add: store_def list_update_append)
  show ?thesis
    by (simp only: store_xyz_def prod.case s0 u1 u2 s1 s2 Option.bind.simps)
qed

lemma replicate_three: "0 < k \<Longrightarrow> replicate (3 * k) c = c # c # c # replicate (3 * (k - 1)) c"
proof -
  assume "0 < k"
  then obtain j where k: "k = Suc j" by (cases k) auto
  have "3 * Suc j = Suc (Suc (Suc (3 * j)))" by simp
  then have "replicate (3 * Suc j) c = replicate (Suc (Suc (Suc (3 * j)))) c" by (rule arg_cong)
  with k show ?thesis by simp
qed

lemma copy_records_from:
  assumes small: "3 * length vt < 4294967296"
  shows "i \<le> length vt \<Longrightarrow> length pre = 3 * i \<Longrightarrow>
     copy_records vt i (pre @ replicate (3 * (length vt - i)) None) =
       Some (pre @ concat (map flat_record (drop i vt)))"
proof (induction "length vt - i" arbitrary: i pre)
  case 0
  then have "i = length vt" by simp
  then show ?case by (subst copy_records.simps) simp
next
  case (Suc k)
  then have lt: "i < length vt" by simp
  have i3: "u32 (i * 3) = 3 * i" using lt small by (simp add: u32_id mult.commute)
  have inc: "u32 (Suc i) = Suc i" using lt small by (simp add: u32_id)
  have rep: "replicate (3 * (length vt - i)) (None::double option) =
      None # None # None # replicate (3 * (length vt - Suc i)) None"
    using lt by (simp add: replicate_three)
  have st: "store_xyz (pre @ replicate (3 * (length vt - i)) None) (3 * i) (x (vt ! i), y (vt ! i), z (vt ! i)) =
      Some ((pre @ flat_record (vt ! i)) @ replicate (3 * (length vt - Suc i)) None)"
    unfolding rep using store_xyz_append[of pre "3 * i"] Suc.prems(2) lt small
    by (simp add: flat_record_def)
  have IH: "copy_records vt (Suc i) ((pre @ flat_record (vt ! i)) @ replicate (3 * (length vt - Suc i)) None) =
      Some ((pre @ flat_record (vt ! i)) @ concat (map flat_record (drop (Suc i) vt)))"
    using Suc.hyps(2) lt Suc.prems(2)
    by (intro Suc.hyps(1)) (simp_all add: flat_record_def)
  have dr: "drop i vt = vt ! i # drop (Suc i) vt"
    using lt by (simp add: Cons_nth_drop_Suc)
  show ?case
    by (subst copy_records.simps) (simp add: lt i3 inc st IH dr del: append_assoc)
qed

lemma copy_records_closed:
  assumes "3 * length vt < 4294967296"
  shows "copy_records vt 0 (replicate (3 * length vt) None) = Some (concat (map flat_record vt))"
  using copy_records_from[OF assms, of 0 "[]"] by simp

lemma copy_positions_from:
  assumes small: "3 * length vs < 4294967296"
  shows "i \<le> length vs \<Longrightarrow> length pre = 3 * i \<Longrightarrow>
     copy_positions vs i (pre @ replicate (3 * (length vs - i)) None) =
       Some (pre @ concat (map flat3 (drop i vs)))"
proof (induction "length vs - i" arbitrary: i pre)
  case 0
  then have "i = length vs" by simp
  then show ?case by (subst copy_positions.simps) simp
next
  case (Suc k)
  then have lt: "i < length vs" by simp
  obtain a b c where v: "vs ! i = (a, b, c)" by (cases "vs ! i") auto
  have i3: "u32 (3 * i) = 3 * i" using lt small by (simp add: u32_id)
  have inc: "u32 (Suc i) = Suc i" using lt small by (simp add: u32_id)
  have rep: "replicate (3 * (length vs - i)) (None::real option) =
      None # None # None # replicate (3 * (length vs - Suc i)) None"
    using lt by (simp add: replicate_three)
  have st: "store_xyz (pre @ replicate (3 * (length vs - i)) None) (3 * i) (vs ! i) =
      Some ((pre @ flat3 (vs ! i)) @ replicate (3 * (length vs - Suc i)) None)"
    unfolding rep v using store_xyz_append[of pre "3 * i"] Suc.prems(2) lt small
    by (simp add: flat3_def)
  have IH: "copy_positions vs (Suc i) ((pre @ flat3 (vs ! i)) @ replicate (3 * (length vs - Suc i)) None) =
      Some ((pre @ flat3 (vs ! i)) @ concat (map flat3 (drop (Suc i) vs)))"
    using Suc.hyps(2) lt Suc.prems(2)
    by (intro Suc.hyps(1)) (simp_all add: flat3_def v)
  have dr: "drop i vs = vs ! i # drop (Suc i) vs"
    using lt by (simp add: Cons_nth_drop_Suc)
  show ?case
    by (subst copy_positions.simps) (simp add: lt i3 inc st IH dr del: append_assoc)
qed

lemma copy_positions_closed:
  assumes "3 * length vs < 4294967296"
  shows "copy_positions vs 0 (replicate (3 * length vs) None) = Some (concat (map flat3 vs))"
  using copy_positions_from[OF assms, of 0 "[]"] by simp

lemma flat_record_table:
  "concat (map flat_record (vertex_table ds)) = concat (map flat3 ds)"
proof -
  have "map flat_record (vertex_table ds) = map (\<lambda>i. flat3 (ds ! i)) [0..<length ds]"
    by (auto simp: vertex_table_def flat_record_def flat3_def split: prod.splits)
  also have "\<dots> = map flat3 ds"
    by (simp add: map_nth flip: map_map[unfolded comp_def, of flat3 "\<lambda>i. ds ! i"])
  finally show ?thesis by simp
qed

section \<open>Lemmas: the normals always complete on a well-indexed mesh\<close>

lemma cells3_Some:
  assumes "3 * k + 2 < length arr" and "None \<notin> set arr"
  shows "\<exists>a b c. cells3 arr k = Some (a, b, c)"
proof -
  have "arr ! (3 * k) \<in> set arr" "arr ! (3 * k + 1) \<in> set arr" "arr ! (3 * k + 2) \<in> set arr"
    using assms(1) by simp_all
  with assms(2) obtain a b c where
    "arr ! (3 * k) = Some a" "arr ! (3 * k + 1) = Some b" "arr ! (3 * k + 2) = Some c"
    by (metis not_Some_eq)
  with assms(1) show ?thesis by (simp add: cells3_def)
qed

lemma cells3_in_set:
  assumes "cells3 arr k = Some (a, b, c)"
  shows "Some a \<in> set arr \<and> Some b \<in> set arr \<and> Some c \<in> set arr"
proof -
  from assms have len: "3 * k + 2 < length arr"
    by (simp add: cells3_def split: if_splits)
  with assms have "arr ! (3 * k) = Some a" "arr ! (3 * k + 1) = Some b" "arr ! (3 * k + 2) = Some c"
    by (auto simp: cells3_def split: option.splits)
  moreover have "arr ! (3 * k) \<in> set arr" "arr ! (3 * k + 1) \<in> set arr" "arr ! (3 * k + 2) \<in> set arr"
    using len by simp_all
  ultimately show ?thesis by simp
qed

lemma triangle_normal_Some:
  assumes w: "well_indexed m" and t: "t < triangle_count m"
  shows "triangle_normal m t \<noteq> None"
proof -
  have nn: "None \<notin> set (triangles m)" using w by (auto simp: well_indexed_def)
  have "3 * t + 2 < length (triangles m)" using w t by (simp add: well_indexed_def)
  from cells3_Some[OF this nn] obtain ia ib ic where
    tri: "cells3 (triangles m) t = Some (ia, ib, ic)" by blast
  from cells3_in_set[OF tri] w have "ia < vertex_count m" "ib < vertex_count m" "ic < vertex_count m"
    by (auto simp: well_indexed_def)
  then have "3 * ia + 2 < length (vertices m)" "3 * ib + 2 < length (vertices m)"
      "3 * ic + 2 < length (vertices m)"
    using w by (simp_all add: well_indexed_def)
  moreover have "None \<notin> set (vertices m)" using w by (simp add: well_indexed_def)
  ultimately obtain a b c where
    "cells3 (vertices m) ia = Some a" "cells3 (vertices m) ib = Some b"
    "cells3 (vertices m) ic = Some c"
    using cells3_Some[of ia "vertices m"] cells3_Some[of ib "vertices m"]
      cells3_Some[of ic "vertices m"] by metis
  with tri show ?thesis by (simp add: triangle_normal_def)
qed

lemma flat3_populated: "None \<notin> set (flat3 t)"
  by (cases t) (simp add: flat3_def)

lemma length_flat3 [simp]: "length (flat3 t) = 3"
  by (cases t) (simp add: flat3_def)

lemma length_concat_flat3: "length (concat (map (\<lambda>n. flat3 (f n)) ns)) = 3 * length ns"
  by (induction ns) simp_all

lemma populated_concat_flat3: "None \<notin> set (concat (map (\<lambda>n. flat3 (f n)) ns))"
  by (induction ns) (simp_all add: flat3_populated)

lemma computeTriangleNormals_Some:
  assumes w: "well_indexed m"
  shows "\<exists>ns. computeTriangleNormals m = Some (m\<lparr>triangle_normals := ns\<rparr>) \<and>
           length ns = 3 * triangle_count m \<and> None \<notin> set ns"
proof -
  let ?ns = "map (triangle_normal m) [0..<triangle_count m]"
  let ?tn = "concat (map (\<lambda>n. flat3 (the n)) ?ns)"
  have "None \<notin> set ?ns"
    using triangle_normal_Some[OF w] by (auto simp del: not_None_eq) metis
  then have "computeTriangleNormals m = Some (m\<lparr>triangle_normals := ?tn\<rparr>)"
    by (simp only: computeTriangleNormals_def Let_def if_False)
  moreover have "length ?tn = 3 * triangle_count m"
    using length_concat_flat3[of the ?ns] by simp
  moreover have "None \<notin> set ?tn" by (rule populated_concat_flat3)
  ultimately show ?thesis by blast
qed

lemma vertex_normal_Some:
  assumes len: "length (triangle_normals m) = 3 * triangle_count m"
    and pop: "None \<notin> set (triangle_normals m)"
  shows "vertex_normal m v \<noteq> None"
proof -
  have "cells3 (triangle_normals m) t \<noteq> None" if "t < triangle_count m" for t
    using cells3_Some[of t "triangle_normals m"] that len pop by auto
  then have "None \<notin> set (incident_normals m v)"
    by (auto simp: incident_normals_def simp del: not_None_eq) metis
  then show ?thesis by (simp add: vertex_normal_def Let_def)
qed

lemma computeVertexNormals_Some:
  assumes len: "length (triangle_normals m) = 3 * triangle_count m"
    and pop: "None \<notin> set (triangle_normals m)"
  shows "\<exists>ns. computeVertexNormals m = Some (m\<lparr>vertex_normals := ns\<rparr>) \<and>
           length ns = 3 * vertex_count m \<and> None \<notin> set ns"
proof -
  let ?ns = "map (vertex_normal m) [0..<vertex_count m]"
  let ?vn = "concat (map (\<lambda>n. flat3 (the n)) ?ns)"
  have "None \<notin> set ?ns"
    using vertex_normal_Some[OF len pop] by (auto simp del: not_None_eq) metis
  then have "computeVertexNormals m = Some (m\<lparr>vertex_normals := ?vn\<rparr>)"
    by (simp only: computeVertexNormals_def Let_def if_False)
  moreover have "length ?vn = 3 * vertex_count m"
    using length_concat_flat3[of the ?ns] by simp
  moreover have "None \<notin> set ?vn" by (rule populated_concat_flat3)
  ultimately show ?thesis by blast
qed

lemma std_copy_exact:
  "length dst = length src \<Longrightarrow> std_copy src dst = Some (map Some src)"
  by (simp add: std_copy_def)

text \<open>The tail of both entry points on a mesh whose positions are written.\<close>

lemma finish_mesh_Some:
  assumes len: "length ts = 3 * triangle_count mesh"
    and alloc: "length (triangles mesh) = 3 * triangle_count mesh"
    and vs: "length (vertices mesh) = 3 * vertex_count mesh" "None \<notin> set (vertices mesh)"
    and rng: "\<forall>k\<in>set ts. k < vertex_count mesh"
  shows "\<exists>tn vn. finish_mesh mesh ts =
            Some (mesh\<lparr>triangles := map Some ts, triangle_normals := tn, vertex_normals := vn\<rparr>) \<and>
          length tn = 3 * triangle_count mesh \<and> None \<notin> set tn \<and>
          length vn = 3 * vertex_count mesh \<and> None \<notin> set vn"
proof -
  let ?m1 = "mesh\<lparr>triangles := map Some ts\<rparr>"
  have cp: "std_copy ts (triangles mesh) = Some (map Some ts)"
    using len alloc by (simp add: std_copy_exact)
  have "well_indexed ?m1"
    using len vs rng by (auto simp: well_indexed_def)
  from computeTriangleNormals_Some[OF this] obtain tn where
    tn: "computeTriangleNormals ?m1 = Some (?m1\<lparr>triangle_normals := tn\<rparr>)"
      "length tn = 3 * triangle_count mesh" "None \<notin> set tn" by auto
  let ?m2 = "?m1\<lparr>triangle_normals := tn\<rparr>"
  have "length (triangle_normals ?m2) = 3 * triangle_count ?m2" "None \<notin> set (triangle_normals ?m2)"
    using tn by simp_all
  from computeVertexNormals_Some[OF this] obtain vn where
    vn: "computeVertexNormals ?m2 = Some (?m2\<lparr>vertex_normals := vn\<rparr>)"
      "length vn = 3 * vertex_count mesh" "None \<notin> set vn" by auto
  show ?thesis
    using cp tn vn by (auto simp: finish_mesh_def)
qed

text \<open>The normals of a mesh of doubles complete in the same way.\<close>

lemma triangle_normal_d_Some:
  assumes w: "well_indexed m" and t: "t < triangle_count m"
  shows "triangle_normal_d m t \<noteq> None"
proof -
  have nn: "None \<notin> set (triangles m)" using w by (auto simp: well_indexed_def)
  have "3 * t + 2 < length (triangles m)" using w t by (simp add: well_indexed_def)
  from cells3_Some[OF this nn] obtain ia ib ic where
    tri: "cells3 (triangles m) t = Some (ia, ib, ic)" by blast
  from cells3_in_set[OF tri] w have "ia < vertex_count m" "ib < vertex_count m" "ic < vertex_count m"
    by (auto simp: well_indexed_def)
  then have "3 * ia + 2 < length (vertices m)" "3 * ib + 2 < length (vertices m)"
      "3 * ic + 2 < length (vertices m)"
    using w by (simp_all add: well_indexed_def)
  moreover have "None \<notin> set (vertices m)" using w by (simp add: well_indexed_def)
  ultimately obtain a b c where
    "cells3 (vertices m) ia = Some a" "cells3 (vertices m) ib = Some b"
    "cells3 (vertices m) ic = Some c"
    using cells3_Some[of ia "vertices m"] cells3_Some[of ib "vertices m"]
      cells3_Some[of ic "vertices m"] by metis
  with tri show ?thesis by (simp add: triangle_normal_d_def)
qed

lemma computeTriangleNormals_d_Some:
  assumes w: "well_indexed m"
  shows "\<exists>ns. computeTriangleNormals_d m = Some (m\<lparr>triangle_normals := ns\<rparr>) \<and>
           length ns = 3 * triangle_count m \<and> None \<notin> set ns"
proof -
  let ?ns = "map (triangle_normal_d m) [0..<triangle_count m]"
  let ?tn = "concat (map (\<lambda>n. flat3 (the n)) ?ns)"
  have "None \<notin> set ?ns"
    using triangle_normal_d_Some[OF w] by (auto simp del: not_None_eq) metis
  then have "computeTriangleNormals_d m = Some (m\<lparr>triangle_normals := ?tn\<rparr>)"
    by (simp only: computeTriangleNormals_d_def Let_def if_False)
  moreover have "length ?tn = 3 * triangle_count m"
    using length_concat_flat3[of the ?ns] by simp
  moreover have "None \<notin> set ?tn" by (rule populated_concat_flat3)
  ultimately show ?thesis by blast
qed

lemma vertex_normal_d_Some:
  assumes len: "length (triangle_normals m) = 3 * triangle_count m"
    and pop: "None \<notin> set (triangle_normals m)"
  shows "vertex_normal_d m v \<noteq> None"
proof -
  have "cells3 (triangle_normals m) t \<noteq> None" if "t < triangle_count m" for t
    using cells3_Some[of t "triangle_normals m"] that len pop by auto
  then have "None \<notin> set (incident_normals m v)"
    by (auto simp: incident_normals_def simp del: not_None_eq) metis
  then show ?thesis by (simp add: vertex_normal_d_def Let_def)
qed

lemma computeVertexNormals_d_Some:
  assumes len: "length (triangle_normals m) = 3 * triangle_count m"
    and pop: "None \<notin> set (triangle_normals m)"
  shows "\<exists>ns. computeVertexNormals_d m = Some (m\<lparr>vertex_normals := ns\<rparr>) \<and>
           length ns = 3 * vertex_count m \<and> None \<notin> set ns"
proof -
  let ?ns = "map (vertex_normal_d m) [0..<vertex_count m]"
  let ?vn = "concat (map (\<lambda>n. flat3 (the n)) ?ns)"
  have "None \<notin> set ?ns"
    using vertex_normal_d_Some[OF len pop] by (auto simp del: not_None_eq) metis
  then have "computeVertexNormals_d m = Some (m\<lparr>vertex_normals := ?vn\<rparr>)"
    by (simp only: computeVertexNormals_d_def Let_def if_False)
  moreover have "length ?vn = 3 * vertex_count m"
    using length_concat_flat3[of the ?ns] by simp
  moreover have "None \<notin> set ?vn" by (rule populated_concat_flat3)
  ultimately show ?thesis by blast
qed

text \<open>The same on a mesh of doubles.\<close>

lemma finish_mesh_d_Some:
  assumes len: "length ts = 3 * triangle_count mesh"
    and alloc: "length (triangles mesh) = 3 * triangle_count mesh"
    and vs: "length (vertices mesh) = 3 * vertex_count mesh" "None \<notin> set (vertices mesh)"
    and rng: "\<forall>k\<in>set ts. k < vertex_count mesh"
  shows "\<exists>tn vn. finish_mesh_d mesh ts =
            Some (mesh\<lparr>triangles := map Some ts, triangle_normals := tn, vertex_normals := vn\<rparr>) \<and>
          length tn = 3 * triangle_count mesh \<and> None \<notin> set tn \<and>
          length vn = 3 * vertex_count mesh \<and> None \<notin> set vn"
proof -
  let ?m1 = "mesh\<lparr>triangles := map Some ts\<rparr>"
  have cp: "std_copy ts (triangles mesh) = Some (map Some ts)"
    using len alloc by (simp add: std_copy_exact)
  have "well_indexed ?m1"
    using len vs rng by (auto simp: well_indexed_def)
  from computeTriangleNormals_d_Some[OF this] obtain tn where
    tn: "computeTriangleNormals_d ?m1 = Some (?m1\<lparr>triangle_normals := tn\<rparr>)"
      "length tn = 3 * triangle_count mesh" "None \<notin> set tn" by auto
  let ?m2 = "?m1\<lparr>triangle_normals := tn\<rparr>"
  have "length (triangle_normals ?m2) = 3 * triangle_count ?m2" "None \<notin> set (triangle_normals ?m2)"
    using tn by simp_all
  from computeVertexNormals_d_Some[OF this] obtain vn where
    vn: "computeVertexNormals_d ?m2 = Some (?m2\<lparr>vertex_normals := vn\<rparr>)"
      "length vn = 3 * vertex_count mesh" "None \<notin> set vn" by auto
  show ?thesis
    using cp tn vn by (auto simp: finish_mesh_d_def)
qed

lemma length_concat_flat3_id: "length (concat (map flat3 ds)) = 3 * length ds"
  by (induction ds) simp_all

lemma populated_concat_flat3_id: "None \<notin> set (concat (map flat3 ds))"
  by (induction ds) (simp_all add: flat3_populated)

lemma vertices_Mesh_new: "vertices (Mesh_new v t) = replicate (3 * v) None"
  by (simp add: Mesh_new_def)

lemma length_welded_points: "length (welded_points source) = 3 * (length source div 3)"
  by (simp add: welded_points_def)

section \<open>Lemmas: the raw-triple entry point in closed form\<close>

lemma createMeshFromVertices_welded:
  assumes big: "3 \<le> length source" and small: "3 * length source < 4294967296"
    and fin: "\<forall>p\<in>set (welded_points source). no_nan p"
  shows "createMeshFromVertices source =
           ((if length source mod 3 \<noteq> 0 then [(Error, not_divisible_msg)] else []),
            map_option Ptr (welded_result (welded_points source)))"
proof -
  let ?n = "length source div 3"
  let ?pts = "welded_points source"
  let ?ds = "first_seen ?pts"
  let ?T = "map (first_index ?ds) ?pts"
  have n: "u32 ?n = ?n" using small by (simp add: u32_id)
  have n3: "3 * ?n \<le> length source" by simp
  have n3s: "3 * ?n < 4294967296" using small by simp
  have fin': "\<forall>p\<in>set (take (3 * ?n) source). no_nan p" using fin by (simp add: welded_points_def)
  from weld_loop_closed[OF n3 n3s fin'] obtain S where
    S: "weld_loop source ?n = (S, ?T)" "sort_by_index (set_elems S) = vertex_table ?ds"
    by (auto simp: welded_points_def)
  have nt: "u32 (length ?pts div 3) = ?n" using n by (simp add: length_welded_points)
  have lends: "length ?ds \<le> length source"
    using length_first_seen_le[of ?pts] by (simp add: length_welded_points)
  have vc: "u32 (length ?ds) = length ?ds" using lends small by (simp add: u32_id)
  have "3 * length (vertex_table ?ds) < 4294967296" using lends small by simp
  from copy_records_closed[OF this]
  have cp: "copy_records (vertex_table ?ds) 0 (replicate (3 * length ?ds) None) =
      Some (concat (map flat3 ?ds))"
    by (simp add: flat_record_table)
  show ?thesis
    using big
    by (simp add: createMeshFromVertices_def Let_def n S nt vc cp vertices_Mesh_new
        welded_result_def length_welded_points)
qed

lemma welded_result_Some:
  assumes "length pts = 3 * n"
  shows "\<exists>tn vn. welded_result pts =
           Some \<lparr>vertex_count = length (first_seen pts),
                 vertices = concat (map flat3 (first_seen pts)),
                 triangle_count = n,
                 triangles = map (\<lambda>p. Some (first_index (first_seen pts) p)) pts,
                 triangle_normals = tn,
                 vertex_normals = vn\<rparr> \<and>
          length tn = 3 * n \<and> None \<notin> set tn \<and>
          length vn = 3 * length (first_seen pts) \<and> None \<notin> set vn"
proof -
  let ?ds = "first_seen pts"
  let ?T = "map (first_index ?ds) pts"
  let ?mesh = "(Mesh_new (length ?ds) (length pts div 3))\<lparr>vertices := concat (map flat3 ?ds)\<rparr>"
  have "\<exists>tn vn. finish_mesh_d ?mesh ?T =
            Some (?mesh\<lparr>triangles := map Some ?T, triangle_normals := tn, vertex_normals := vn\<rparr>) \<and>
          length tn = 3 * triangle_count ?mesh \<and> None \<notin> set tn \<and>
          length vn = 3 * vertex_count ?mesh \<and> None \<notin> set vn"
    by (rule finish_mesh_d_Some)
      (simp_all add: assms Mesh_new_def length_concat_flat3_id
        populated_concat_flat3_id first_index_less flat3_populated)
  then obtain tn vn where fin: "finish_mesh_d ?mesh ?T =
            Some (?mesh\<lparr>triangles := map Some ?T, triangle_normals := tn, vertex_normals := vn\<rparr>)"
     and norm: "length tn = 3 * n" "None \<notin> set tn" "length vn = 3 * length ?ds" "None \<notin> set vn"
    by (auto simp: Mesh_new_def assms)
  have "welded_result pts =
           Some \<lparr>vertex_count = length (first_seen pts),
                 vertices = concat (map flat3 (first_seen pts)),
                 triangle_count = n,
                 triangles = map (\<lambda>p. Some (first_index (first_seen pts) p)) pts,
                 triangle_normals = tn,
                 vertex_normals = vn\<rparr>"
    unfolding welded_result_def fin by (simp add: Mesh_new_def assms comp_def)
  with norm show ?thesis by blast
qed

lemma take_concat_flat3: "take (3 * i) (concat (map flat3 ds)) = concat (map flat3 (take i ds))"
proof (induction ds arbitrary: i)
  case Nil
  then show ?case by simp
next
  case (Cons d ds)
  show ?case
  proof (cases i)
    case 0
    then show ?thesis by simp
  next
    case (Suc j)
    have "3 * Suc j = 3 + 3 * j" by simp
    then have "take (3 * Suc j) (flat3 d @ concat (map flat3 ds)) =
        flat3 d @ take (3 * j) (concat (map flat3 ds))"
      by (simp only: take_append length_flat3) simp
    with Suc Cons.IH[of j] show ?thesis by simp
  qed
qed

lemma cells3_concat_flat3:
  assumes "i < length ds"
  shows "cells3 (concat (map flat3 ds)) i = Some (ds ! i)"
proof -
  obtain a b c where d: "ds ! i = (a, b, c)" by (cases "ds ! i") auto
  have split: "ds = take i ds @ ds ! i # drop (Suc i) ds"
    using assms by (simp add: id_take_nth_drop)
  let ?pre = "concat (map flat3 (take i ds))"
  let ?post = "concat (map flat3 (drop (Suc i) ds))"
  have lp: "length ?pre = 3 * i"
    using assms by (simp add: length_concat_flat3_id)
  have "concat (map flat3 ds) = concat (map flat3 (take i ds @ ds ! i # drop (Suc i) ds))"
    using split by simp
  then have arr: "concat (map flat3 ds) = ?pre @ Some a # Some b # Some c # ?post"
    by (simp add: d flat3_def)
  have "(?pre @ Some a # Some b # Some c # ?post) ! (3 * i) = Some a"
       "(?pre @ Some a # Some b # Some c # ?post) ! (3 * i + 1) = Some b"
       "(?pre @ Some a # Some b # Some c # ?post) ! (3 * i + 2) = Some c"
    using lp by (simp_all add: nth_append)
  moreover have "3 * i + 2 < length (?pre @ Some a # Some b # Some c # ?post)"
    using lp by simp
  ultimately have "cells3 (?pre @ Some a # Some b # Some c # ?post) i = Some (a, b, c)"
    by (simp add: cells3_def)
  then show ?thesis by (simp only: arr d)
qed

lemma first_index_mid: "p \<notin> set ds \<Longrightarrow> first_index (ds @ p # es) p = length ds"
  by (induction ds) auto

lemma first_index_first_seen_new:
  assumes k: "k < length pts" and new: "pts ! k \<notin> set (take k pts)"
  shows "first_index (first_seen pts) (pts ! k) = card (set (take k pts))"
proof -
  have "pts = take k pts @ pts ! k # drop (Suc k) pts"
    using k by (simp add: id_take_nth_drop)
  then have "first_seen pts = first_seen (take k pts @ pts ! k # drop (Suc k) pts)" by simp
  also have "\<dots> = first_seen (take k pts) @
       pts ! k # filter (\<lambda>q. q \<notin> set (take k pts)) (filter (\<lambda>q. q \<noteq> pts ! k) (first_seen (drop (Suc k) pts)))"
    using new by (simp add: first_seen_append)
  finally have fs: "first_seen pts = first_seen (take k pts) @
       pts ! k # filter (\<lambda>q. q \<notin> set (take k pts)) (filter (\<lambda>q. q \<noteq> pts ! k) (first_seen (drop (Suc k) pts)))" .
  have "pts ! k \<notin> set (first_seen (take k pts))" using new by simp
  then have "first_index (first_seen (take k pts) @ pts ! k # es) (pts ! k) = length (first_seen (take k pts))" for es
    by (rule first_index_mid)
  then show ?thesis by (simp add: fs length_first_seen)
qed

lemma raw_mesh:
  assumes big: "3 \<le> length source" and small: "3 * length source < 4294967296"
    and fin: "\<forall>p\<in>set (welded_points source). no_nan p"
  shows "\<exists>tn vn. snd (createMeshFromVertices source) =
           Some (Ptr \<lparr>vertex_count = length (first_seen (welded_points source)),
                 vertices = concat (map flat3 (first_seen (welded_points source))),
                 triangle_count = length source div 3,
                 triangles = map (\<lambda>p. Some (first_index (first_seen (welded_points source)) p))
                               (welded_points source),
                 triangle_normals = tn,
                 vertex_normals = vn\<rparr>) \<and>
          length tn = 3 * (length source div 3) \<and> None \<notin> set tn \<and>
          length vn = 3 * length (first_seen (welded_points source)) \<and> None \<notin> set vn"
proof -
  from welded_result_Some[OF length_welded_points[of source]] obtain tn vn where
    "welded_result (welded_points source) =
           Some \<lparr>vertex_count = length (first_seen (welded_points source)),
                 vertices = concat (map flat3 (first_seen (welded_points source))),
                 triangle_count = length source div 3,
                 triangles = map (\<lambda>p. Some (first_index (first_seen (welded_points source)) p))
                               (welded_points source),
                 triangle_normals = tn,
                 vertex_normals = vn\<rparr>"
    "length tn = 3 * (length source div 3)" "None \<notin> set tn"
    "length vn = 3 * length (first_seen (welded_points source))" "None \<notin> set vn"
    by blast
  then show ?thesis
    using createMeshFromVertices_welded[OF big small fin] by auto
qed

section \<open>Lemmas: truncation to whole triples\<close>


section \<open>Lemmas: transforms and the meshes of a node\<close>

lemma mat_apply_mat_mul:
  "affine local \<Longrightarrow> mat_apply (mat_mul parent local) p = mat_apply parent (mat_apply local p)"
  by (cases parent; cases local; cases p) (simp add: algebra_simps)

lemma mat_mul_identity_left: "mat_mul aiMatrix4x4_identity m = m"
  by (cases m) (simp add: aiMatrix4x4_identity_def)

lemma scaled_vertex_cwise:
  "scaled_vertex transform scale p = cwise_mul (mat_apply transform p) scale"
  by (cases "mat_apply transform p"; cases scale) (simp add: scaled_vertex_def)

lemma fst_extract_mesh:
  "fst (extract_mesh transform scale a (vs, ts)) = vs @ map (scaled_vertex transform scale) (mVertices a)"
  by (simp add: extract_mesh_def Let_def)

lemma extract_node_meshes_vertices:
  "\<forall>k\<in>set ms. k < length (mMeshes scene) \<Longrightarrow>
   \<exists>ts'. extract_node_meshes scene transform scale ms (vs, ts) =
      Some (vs @ map (scaled_vertex transform scale) (node_vertices scene ms), ts')"
proof (induction ms arbitrary: vs ts)
  case Nil
  then show ?case by (simp add: node_vertices_def)
next
  case (Cons k ms)
  obtain vs1 ts1 where e: "extract_mesh transform scale (mMeshes scene ! k) (vs, ts) = (vs1, ts1)"
    by (cases "extract_mesh transform scale (mMeshes scene ! k) (vs, ts)") auto
  have vs1: "vs1 = vs @ map (scaled_vertex transform scale) (mVertices (mMeshes scene ! k))"
    using fst_extract_mesh[of transform scale "mMeshes scene ! k" vs ts] e by simp
  from Cons.prems have "\<forall>k\<in>set ms. k < length (mMeshes scene)" by simp
  from Cons.IH[OF this, of vs1 ts1] obtain ts' where
    "extract_node_meshes scene transform scale ms (vs1, ts1) =
      Some (vs1 @ map (scaled_vertex transform scale) (node_vertices scene ms), ts')" by blast
  then show ?case using Cons.prems e vs1 by (simp add: node_vertices_def)
qed

lemma extractMeshData_children:
  "extractMeshData scene (aiNode local ms cs) parent scale acc =
     Option.bind (extractMeshData scene (aiNode local ms []) parent scale acc)
       (extractChildren scene cs (mat_mul parent local) scale)"
  by (simp add: Let_def split: option.splits)

text \<open>In a scene without meshes the traversal collects nothing.\<close>

lemma extract_node_meshes_no_meshes:
  "mMeshes scene = [] \<Longrightarrow> extract_node_meshes scene transform scale ms acc = Some acc' \<Longrightarrow> acc' = acc"
  by (cases ms) simp_all

lemma extract_no_meshes:
  "(mMeshes scene = [] \<longrightarrow> extractMeshData scene node parent scale acc = Some acc' \<longrightarrow> acc' = acc)"
  "(mMeshes scene = [] \<longrightarrow> extractChildren scene nodes transform scale acc = Some acc' \<longrightarrow> acc' = acc)"
proof (induction scene node parent scale acc and scene nodes transform scale acc
    arbitrary: acc' and acc' rule: extractMeshData_extractChildren.induct)
  case (1 scene loc ms cs parent_transform scale acc)
  show ?case
  proof (intro impI)
    assume e: "mMeshes scene = []"
      and r: "extractMeshData scene (aiNode loc ms cs) parent_transform scale acc = Some acc'"
    from r obtain acc1 where
      a: "extract_node_meshes scene (mat_mul parent_transform loc) scale ms acc = Some acc1"
      and b: "extractChildren scene cs (mat_mul parent_transform loc) scale acc1 = Some acc'"
      by (auto simp: Let_def split: option.splits)
    from extract_node_meshes_no_meshes[OF e a] have "acc1 = acc" .
    with "1.IH"[OF refl a, of acc'] e b show "acc' = acc" by simp
  qed
next
  case (2 scene transform scale acc)
  then show ?case by simp
next
  case (3 scene c cs transform scale acc)
  show ?case
  proof (intro impI)
    assume e: "mMeshes scene = []"
      and r: "extractChildren scene (c # cs) transform scale acc = Some acc'"
    from r obtain acc1 where
      a: "extractMeshData scene c transform scale acc = Some acc1"
      and b: "extractChildren scene cs transform scale acc1 = Some acc'"
      by (auto split: option.splits)
    from "3.IH"(1)[of acc1] e a have "acc1 = acc" by simp
    with "3.IH"(2)[OF a, of acc'] e b show "acc' = acc" by simp
  qed
qed

lemma traversal_nonempty_has_meshes:
  assumes "extractMeshData scene node parent scale ([], []) = Some (vs, ts)" and "vs \<noteq> []"
  shows "HasMeshes scene"
proof (rule ccontr)
  assume "\<not> HasMeshes scene"
  then have "mMeshes scene = []" by (simp add: HasMeshes_def)
  with extract_no_meshes(1)[of scene node parent scale "([], [])" "(vs, ts)"] assms(1)
  have "(vs, ts) = ([], [])" by simp
  with assms(2) show False by simp
qed

lemma extract_triangle_scene:
  "extractMeshData triangle_scene (mRootNode triangle_scene) aiMatrix4x4_identity one_scale ([], []) =
     Some ([(0, 0, 0), (1, 0, 0), (0, 1, 0)], [0, 1, 2])"
  by (simp add: triangle_scene_def aiMatrix4x4_identity_def one_scale_def extract_mesh_def
      scaled_vertex_def Let_def u32_def mNumIndices_def)

section \<open>Lemmas: the pre-indexed entry point on data in range\<close>

lemma createMeshFromVertices_indexed_Some:
  assumes len: "length ts = 3 * n" and small: "3 * length vs < 4294967296" "n < 4294967296"
    and rng: "\<forall>k\<in>set ts. k < length vs"
  shows "\<exists>tn vn. createMeshFromVertices_indexed vs ts =
            Some \<lparr>vertex_count = length vs, vertices = concat (map flat3 vs),
                  triangle_count = n, triangles = map Some ts,
                  triangle_normals = tn, vertex_normals = vn\<rparr> \<and>
          length tn = 3 * n \<and> None \<notin> set tn \<and>
          length vn = 3 * length vs \<and> None \<notin> set vn"
proof -
  have nt: "u32 (length ts div 3) = n" using len small by (simp add: u32_id)
  have vc: "u32 (length vs) = length vs" using small by (simp add: u32_id)
  have cp: "copy_positions vs 0 (replicate (3 * length vs) None) = Some (concat (map flat3 vs))"
    using small(1) by (rule copy_positions_closed)
  let ?mesh = "(Mesh_new (length vs) n)\<lparr>vertices := concat (map flat3 vs)\<rparr>"
  have "\<exists>tn vn. finish_mesh ?mesh ts =
            Some (?mesh\<lparr>triangles := map Some ts, triangle_normals := tn, vertex_normals := vn\<rparr>) \<and>
          length tn = 3 * triangle_count ?mesh \<and> None \<notin> set tn \<and>
          length vn = 3 * vertex_count ?mesh \<and> None \<notin> set vn"
    using len rng
    by (intro finish_mesh_Some)
      (simp_all add: Mesh_new_def length_concat_flat3_id populated_concat_flat3_id flat3_populated)
  then obtain tn vn where fin: "finish_mesh ?mesh ts =
            Some (?mesh\<lparr>triangles := map Some ts, triangle_normals := tn, vertex_normals := vn\<rparr>)"
     and norm: "length tn = 3 * n" "None \<notin> set tn" "length vn = 3 * length vs" "None \<notin> set vn"
    by (auto simp: Mesh_new_def)
  have "createMeshFromVertices_indexed vs ts =
            Some \<lparr>vertex_count = length vs, vertices = concat (map flat3 vs),
                  triangle_count = n, triangles = map Some ts,
                  triangle_normals = tn, vertex_normals = vn\<rparr>"
    by (simp add: createMeshFromVertices_indexed_def Let_def nt vc cp vertices_Mesh_new fin)
      (simp add: Mesh_new_def)
  with norm show ?thesis by blast
qed

section \<open>Lemmas: the cells of the normal arrays\<close>
















section \<open>Lemmas: the box\<close>

lemma vertices_box:
  "store_all (vertices (Mesh_new 8 12))
     [(0, - hx), (1, - hy), (2, - hz),
      (3, hx), (4, - hy), (5, - hz),
      (6, hx), (7, - hy), (8, hz),
      (9, - hx), (10, - hy), (11, hz),
      (12, - hx), (13, hy), (14, hz),
      (15, - hx), (16, hy), (17, - hz),
      (18, hx), (19, hy), (20, hz),
      (21, hx), (22, hy), (23, - hz)] = Some (map Some (box_corners hx hy hz))"
  by (simp add: Mesh_new_def store_def box_corners_def numeral_eq_Suc)

lemma tri_in_range: "\<forall>k\<in>set tri. k < 8"
  by (simp add: tri_def)

section \<open>Lemmas: the raw-triple entry point for every input size\<close>

text \<open>The loop welds the points of \<open>read_points\<close>, in order.\<close>

lemma weld_triple_fold: "weld_triple source i st = fold weld_vertex (read_triple source i) st"
  by (simp add: weld_triple_def read_triple_def Let_def)

lemma weld_loop_read:
  "weld_loop source n = fold weld_vertex (concat (map (read_triple source) [0..<n])) (Leaf, [])"
proof (induction n)
  case 0
  then show ?case by (simp add: weld_loop_def)
next
  case (Suc n)
  have "weld_loop source (Suc n) = weld_triple source n (weld_loop source n)"
    by (simp add: weld_loop_def)
  then show ?case by (simp add: Suc.IH weld_triple_fold)
qed

lemma length_read_points: "length (read_points source) = 3 * u32 (length source div 3)"
proof -
  have "length (concat (map (read_triple source) [0..<n])) = 3 * n" for n
    by (induction n) (simp_all add: read_triple_def)
  then show ?thesis by (simp add: read_points_def)
qed

lemma read_points_in_range:
  assumes "3 * length source < 4294967296"
  shows "read_points source = welded_points source"
proof -
  have n: "u32 (length source div 3) = length source div 3" using assms by (simp add: u32_id)
  have "k \<le> length source div 3 \<Longrightarrow>
      concat (map (read_triple source) [0..<k]) = take (3 * k) source" for k
  proof (induction k)
    case 0
    then show ?case by simp
  next
    case (Suc k)
    then have le: "3 * k + 3 \<le> length source" by simp
    then have small: "3 * k + 2 < 4294967296" using assms by simp
    have "u32 (k * 3) = 3 * k" using small by (simp add: u32_id mult.commute)
    moreover have "u32 (3 * k + 1) = 3 * k + 1" using small by (simp add: u32_id)
    moreover have "u32 (3 * k + 1 + 1) = 3 * k + 2" using small by (simp add: u32_id)
    ultimately have rt: "read_triple source k =
        [source ! (3 * k), source ! (3 * k + 1), source ! (3 * k + 2)]"
      by (simp add: read_triple_def)
    have "concat (map (read_triple source) [0..<Suc k]) =
        take (3 * k) source @ [source ! (3 * k), source ! (3 * k + 1), source ! (3 * k + 2)]"
      using Suc by (simp add: rt)
    also have "\<dots> = take (3 * Suc k) source"
      using take_three_more[OF le] by simp
    finally show ?case .
  qed
  from this[of "length source div 3"] show ?thesis
    by (simp add: read_points_def welded_points_def n)
qed

lemma u32_le: "u32 n \<le> n"
  by (simp add: u32_def)

lemma read_triple_subset:
  assumes "3 * i + 2 < length source"
  shows "set (read_triple source i) \<subseteq> set source"
proof -
  have a: "u32 (i * 3) \<le> 3 * i" using u32_le[of "i * 3"] by (simp add: mult.commute)
  have b: "u32 (u32 (i * 3) + 1) \<le> 3 * i + 1"
    using u32_le[of "u32 (i * 3) + 1"] a by simp
  have c: "u32 (u32 (u32 (i * 3) + 1) + 1) \<le> 3 * i + 2"
    using u32_le[of "u32 (u32 (i * 3) + 1) + 1"] b by simp
  from a b c assms show ?thesis by (simp add: read_triple_def)
qed

lemma read_points_subset: "set (read_points source) \<subseteq> set source"
proof -
  have "set (read_triple source i) \<subseteq> set source" if "i < u32 (length source div 3)" for i
  proof (rule read_triple_subset)
    have "i < length source div 3" using that u32_le[of "length source div 3"] by simp
    then show "3 * i + 2 < length source" by simp
  qed
  then show ?thesis unfolding read_points_def by fastforce
qed

text \<open>The set never shrinks.\<close>

lemma size_set_insert:
  "set_size (set_insert k S) = (if M_get_insert_unique_pos S k then Suc (set_size S) else set_size S)"
proof (cases "M_get_insert_unique_pos S k")
  case True
  then have "mset (set_elems (set_insert k S)) = mset (k # set_elems S)"
    by (simp add: mset_set_insert)
  from mset_eq_length[OF this] True show ?thesis by (simp add: set_size_elems)
next
  case False
  then show ?thesis by (simp add: set_insert_def)
qed

lemma length_set_insert_ge: "set_size S \<le> set_size (set_insert k S)"
  by (simp add: size_set_insert)

lemma length_weld_vertex_ge: "set_size (fst st) \<le> set_size (fst (weld_vertex p st))"
proof (cases st)
  case (Pair S T)
  show ?thesis
    using length_set_insert_ge[of S "(LocalVertexType_of p)\<lparr>index := u32 (set_size S)\<rparr>"]
    by (simp add: Pair weld_vertex_def Let_def split: option.splits)
qed

lemma length_fold_weld_vertex_ge: "set_size (fst st) \<le> set_size (fst (fold weld_vertex ps st))"
proof (induction ps arbitrary: st)
  case Nil
  then show ?case by simp
next
  case (Cons p ps)
  have "set_size (fst st) \<le> set_size (fst (weld_vertex p st))" by (rule length_weld_vertex_ge)
  also have "\<dots> \<le> set_size (fst (fold weld_vertex ps (weld_vertex p st)))" by (rule Cons.IH)
  finally show ?case by simp
qed

text \<open>A point already in the set: no size bound is needed.\<close>

lemma weld_vertex_old:
  assumes inv: "inv_weld S ds" and fin: "no_nan p" and old: "p \<in> set ds"
  shows "weld_vertex p (S, T) = (S, T @ [first_index ds p])"
proof -
  have "set_find S (LocalVertexType_of p) = Some (vertex_record p (first_index ds p))"
    using old by (simp add: set_find_table[OF inv fin])
  then show ?thesis by (simp add: weld_vertex_def)
qed

text \<open>A new point always makes the set larger, whatever index it is given.\<close>

lemma weld_vertex_new_length:
  assumes inv: "inv_weld S ds" and fin: "no_nan p" and new: "p \<notin> set ds"
  shows "set_size (fst (weld_vertex p (S, T))) = Suc (set_size S)"
proof -
  have find: "set_find S (LocalVertexType_of p) = None"
    using new by (simp add: set_find_table[OF inv fin])
  let ?k = "(LocalVertexType_of p)\<lparr>index := u32 (set_size S)\<rparr>"
  have k: "?k = vertex_record p (u32 (set_size S))" by (simp add: vertex_record_def)
  have "M_get_insert_unique_pos S ?k"
    unfolding k by (rule unique_pos_new[OF new_point_separated[OF inv fin new]])
  then have "set_size (set_insert ?k S) = Suc (set_size S)" by (simp add: size_set_insert)
  with find show ?thesis by (simp add: weld_vertex_def Let_def)
qed

lemma fold_weld_vertex_post:
  assumes "inv_weld S ds" and "\<forall>p\<in>set ps. no_nan p"
    and "set_size (fst (fold weld_vertex ps (S, T))) \<le> 4294967296"
  shows "\<exists>S'. fold weld_vertex ps (S, T) = (S', T @ map (first_index (fold discover ps ds)) ps) \<and>
              inv_weld S' (fold discover ps ds)"
  using assms
proof (induction ps arbitrary: S ds T)
  case Nil
  then show ?case by simp
next
  case (Cons p ps)
  from Cons.prems(2) have fin: "no_nan p" and fins: "\<forall>q\<in>set ps. no_nan q" by simp_all
  have mono: "set_size (fst (weld_vertex p (S, T))) \<le> set_size (fst (fold weld_vertex (p # ps) (S, T)))"
    using length_fold_weld_vertex_ge[of "weld_vertex p (S, T)" ps] by simp
  have small: "p \<notin> set ds \<Longrightarrow> length ds < 4294967296"
  proof -
    assume new: "p \<notin> set ds"
    from weld_vertex_new_length[OF Cons.prems(1) fin new, of T] mono Cons.prems(3)
    have "Suc (set_size S) \<le> 4294967296" by simp
    then show ?thesis using inv_weld_length[OF Cons.prems(1)] by simp
  qed
  have "\<exists>S1. weld_vertex p (S, T) = (S1, T @ [first_index (discover p ds) p]) \<and>
              inv_weld S1 (discover p ds)"
  proof (cases "p \<in> set ds")
    case True
    with weld_vertex_old[OF Cons.prems(1) fin True, of T] Cons.prems(1) show ?thesis
      by (simp add: discover_old)
  next
    case False
    from weld_vertex_step[OF Cons.prems(1) fin small[OF False]] show ?thesis .
  qed
  then obtain S1 where
    S1: "weld_vertex p (S, T) = (S1, T @ [first_index (discover p ds) p])"
      "inv_weld S1 (discover p ds)" by blast
  have "set_size (fst (fold weld_vertex ps (S1, T @ [first_index (discover p ds) p]))) \<le> 4294967296"
    using Cons.prems(3) S1(1) by simp
  from Cons.IH[OF S1(2) fins this] obtain S' where
    S': "fold weld_vertex ps (S1, T @ [first_index (discover p ds) p]) =
           (S', (T @ [first_index (discover p ds) p]) @
                map (first_index (fold discover ps (discover p ds))) ps)"
      "inv_weld S' (fold discover ps (discover p ds))" by blast
  have "p \<in> set (discover p ds)" by (simp add: set_discover)
  then have "first_index (fold discover ps (discover p ds)) p = first_index (discover p ds) p"
    by (rule first_index_fold_discover)
  with S1 S' show ?case by simp
qed

text \<open>What a copy loop that returns tells about its input.\<close>

lemma store_length: "store arr k v = Some r \<Longrightarrow> length r = length arr"
  by (auto simp: store_def split: if_splits)

lemma store_other: "store arr k v = Some r \<Longrightarrow> j \<noteq> k \<Longrightarrow> r ! j = arr ! j"
  by (auto simp: store_def split: if_splits)

lemma store_xyz_length: "store_xyz arr i3 v = Some r \<Longrightarrow> length r = length arr"
  by (cases v) (auto simp: store_xyz_def split: bind_splits dest!: store_length)

lemma store_xyz_beyond:
  assumes "store_xyz arr i3 v = Some r" and "i3 < 4294967296" and "4294967296 \<le> j"
  shows "r ! j = arr ! j"
proof -
  obtain a b c where v: "v = (a, b, c)" by (cases v) auto
  from assms(1) obtain r1 r2 where
    s: "store arr i3 a = Some r1" "store r1 (u32 (i3 + 1)) b = Some r2"
       "store r2 (u32 (i3 + 2)) c = Some r"
    by (auto simp: store_xyz_def v split: bind_splits)
  have lt: "u32 k < 4294967296" for k by (simp add: u32_def)
  have "r1 ! j = arr ! j" using store_other[OF s(1), of j] assms(2,3) by simp
  moreover have "r2 ! j = r1 ! j" using store_other[OF s(2), of j] lt[of "i3 + 1"] assms(3) by simp
  moreover have "r ! j = r2 ! j" using store_other[OF s(3), of j] lt[of "i3 + 2"] assms(3) by simp
  ultimately show ?thesis by simp
qed

lemma copy_records_returns:
  assumes "copy_records vt i arr = Some r"
  shows "(i < 4294967296 \<longrightarrow> length vt < 4294967296) \<and> length r = length arr \<and>
         (\<forall>j\<ge>4294967296. r ! j = arr ! j)"
proof (rule copy_records.raw_induct[where
      P="\<lambda>vt i arr r. (i < 4294967296 \<longrightarrow> length vt < 4294967296) \<and> length r = length arr \<and>
         (\<forall>j\<ge>4294967296. r ! j = arr ! j)", OF _ assms])
  fix f :: "LocalVertexType list \<Rightarrow> nat \<Rightarrow> double option list \<Rightarrow> double option list option"
  fix vt i arr r
  assume IHr: "\<And>vt i arr r. f vt i arr = Some r \<Longrightarrow>
      (i < 4294967296 \<longrightarrow> length vt < 4294967296) \<and> length r = length arr \<and>
         (\<forall>j\<ge>4294967296. r ! j = arr ! j)"
    and eq: "(if i < length vt
      then Option.bind (store_xyz arr (u32 (i * 3)) (x (vt ! i), y (vt ! i), z (vt ! i)))
             (f vt (u32 (i + 1)))
      else Some arr) = Some r"
  show "(i < 4294967296 \<longrightarrow> length vt < 4294967296) \<and> length r = length arr \<and>
         (\<forall>j\<ge>4294967296. r ! j = arr ! j)"
  proof (cases "i < length vt")
    case False
    with eq have "r = arr" by simp
    with False show ?thesis by simp
  next
    case True
    with eq obtain arr' where
      st: "store_xyz arr (u32 (i * 3)) (x (vt ! i), y (vt ! i), z (vt ! i)) = Some arr'"
      and rec: "f vt (u32 (i + 1)) arr' = Some r"
      by (auto split: bind_splits)
    have lt: "u32 k < 4294967296" for k by (simp add: u32_def)
    from IHr[OF rec] lt[of "i + 1"] have
      IH: "length vt < 4294967296" "length r = length arr'" "\<forall>j\<ge>4294967296. r ! j = arr' ! j"
      by simp_all
    have "\<forall>j\<ge>4294967296. arr' ! j = arr ! j"
      using store_xyz_beyond[OF st lt] by simp
    with IH store_xyz_length[OF st] show ?thesis by simp
  qed
qed

text \<open>Every vertex that a triangle references is read by the triangle normals.\<close>

lemma length_sort_by_index: "length (sort_by_index S) = length S"
  by (simp add: sort_by_index_sort_key)

lemma triangle_normal_corners:
  "triangle_normal_d m t \<noteq> None \<Longrightarrow> cells3 (triangles m) t = Some (ia, ib, ic) \<Longrightarrow>
   cells3 (vertices m) ia \<noteq> None \<and> cells3 (vertices m) ib \<noteq> None \<and> cells3 (vertices m) ic \<noteq> None"
  by (auto simp: triangle_normal_d_def split: option.splits)

lemma computeTriangleNormals_d_all:
  assumes c: "computeTriangleNormals_d m = Some m'" and t: "t < triangle_count m"
  shows "triangle_normal_d m t \<noteq> None"
proof -
  let ?ns = "map (triangle_normal_d m) [0..<triangle_count m]"
  from c have nn: "None \<notin> set ?ns"
    by (simp add: computeTriangleNormals_d_def Let_def split: if_splits)
  have "?ns ! t \<in> set ?ns" using t by (intro nth_mem) simp
  with nn have "?ns ! t \<noteq> None" by metis
  then show ?thesis using t by simp
qed

lemma cells3_map_Some:
  "3 * t + 2 < length T \<Longrightarrow> cells3 (map Some T) t = Some (T ! (3 * t), T ! (3 * t + 1), T ! (3 * t + 2))"
  by (simp add: cells3_def)

lemma cells3_unwritten: "arr ! (3 * k + 1) = None \<Longrightarrow> cells3 arr k = None"
  by (simp add: cells3_def split: option.splits)

lemma referenced_vertex_written:
  assumes c: "computeTriangleNormals_d m1 = Some m2"
    and tr: "triangles m1 = map Some T" and len: "length T = 3 * triangle_count m1"
    and j: "j < length T"
  shows "cells3 (vertices m1) (T ! j) \<noteq> None"
proof -
  let ?t = "j div 3"
  have t: "?t < triangle_count m1" using j len by simp
  have in3: "3 * ?t + 2 < length T" using t len by simp
  from computeTriangleNormals_d_all[OF c t] have nn: "triangle_normal_d m1 ?t \<noteq> None" .
  have cs: "cells3 (triangles m1) ?t = Some (T ! (3 * ?t), T ! (3 * ?t + 1), T ! (3 * ?t + 2))"
    unfolding tr using in3 by (rule cells3_map_Some)
  from triangle_normal_corners[OF nn cs] have all:
    "cells3 (vertices m1) (T ! (3 * ?t)) \<noteq> None"
    "cells3 (vertices m1) (T ! (3 * ?t + 1)) \<noteq> None"
    "cells3 (vertices m1) (T ! (3 * ?t + 2)) \<noteq> None"
    by simp_all
  have "j = 3 * ?t \<or> j = 3 * ?t + 1 \<or> j = 3 * ?t + 2" by presburger
  with all show ?thesis by metis
qed

lemma every_index_referenced:
  assumes "k < length (first_seen pts)"
  shows "\<exists>j<length pts. map (first_index (first_seen pts)) pts ! j = k"
proof -
  let ?ds = "first_seen pts"
  have "?ds ! k \<in> set pts" using assms nth_mem[of k ?ds] by simp
  then obtain j where j: "j < length pts" "pts ! j = ?ds ! k"
    by (auto simp: in_set_conv_nth)
  have "first_index ?ds (?ds ! k) = k" using assms by (simp add: first_index_nth)
  with j show ?thesis by auto
qed

text \<open>
  A mesh that is returned is the welded mesh of the points read: a vertex table too long
  for the 32-bit counters leaves a referenced position unwritten, and the normals do
  not return.
\<close>

lemma createMeshFromVertices_returned:
  assumes ret: "createMeshFromVertices source = (lg, Some (Ptr m))"
    and nonan: "\<forall>p\<in>set (read_points source). no_nan p"
  shows "3 \<le> length source \<and> welded_result (read_points source) = Some m"
proof -
  define n where "n = u32 (length source div 3)"
  define pts where "pts = read_points source"
  define ds where "ds = first_seen pts"
  have big: "3 \<le> length source"
  proof (rule ccontr)
    assume "\<not> 3 \<le> length source"
    then have "createMeshFromVertices source = ([], Some NULL)"
      by (simp add: createMeshFromVertices_def)
    with ret show False by simp
  qed
  obtain S T where ST: "weld_loop source n = (S, T)" by (cases "weld_loop source n") auto
  have fold_pts: "fold weld_vertex pts (Leaf, []) = (S, T)"
    using ST by (simp add: weld_loop_read pts_def read_points_def n_def)
  have lenpts: "length pts = 3 * n" by (simp add: pts_def n_def length_read_points)
  have nlt: "n < 4294967296" by (simp add: n_def u32_def)
  define vt where "vt = sort_by_index (set_elems S)"
  define nt where "nt = u32 (length T div 3)"
  define mesh :: "double Mesh_of" where "mesh = Mesh_new (u32 (length vt)) nt"
  have "snd (createMeshFromVertices source) =
      map_option Ptr (Option.bind (copy_records vt 0 (vertices mesh))
         (\<lambda>arr. finish_mesh_d (mesh\<lparr>vertices := arr\<rparr>) T))"
    using big ST[unfolded n_def]
    by (simp add: createMeshFromVertices_def Let_def vt_def nt_def mesh_def)
  with ret have "Option.bind (copy_records vt 0 (vertices mesh))
         (\<lambda>arr. finish_mesh_d (mesh\<lparr>vertices := arr\<rparr>) T) = Some m"
    by (cases "Option.bind (copy_records vt 0 (vertices mesh))
         (\<lambda>arr. finish_mesh_d (mesh\<lparr>vertices := arr\<rparr>) T)") simp_all
  then obtain arr where
    cp: "copy_records vt 0 (vertices mesh) = Some arr"
    and fin: "finish_mesh_d (mesh\<lparr>vertices := arr\<rparr>) T = Some m"
    by (auto split: bind_splits)
  from copy_records_returns[OF cp] have
    lvt: "length vt < 4294967296"
    and beyond: "\<forall>j\<ge>4294967296. arr ! j = vertices mesh ! j"
    by simp_all
  have lenS: "set_size S < 4294967296"
    using lvt by (simp add: vt_def length_sort_by_index set_size_elems)
  then have "set_size (fst (fold weld_vertex pts (Leaf, []))) \<le> 4294967296"
    by (simp add: fold_pts)
  from fold_weld_vertex_post[OF inv_weld_empty nonan[folded pts_def] this] fold_pts
  have T: "T = map (first_index ds) pts" and inv: "inv_weld S ds"
    by (simp_all add: fold_discover_Nil ds_def)
  have vt: "vt = vertex_table ds" unfolding vt_def using inv by (rule sort_by_index_table)
  have lends: "length ds < 4294967296" using lvt by (simp add: vt)
  have vc: "u32 (length vt) = length ds" using lends by (simp add: vt u32_id)
  have ntn: "nt = n" using nlt by (simp add: nt_def T lenpts u32_id)
  have arr0: "vertices mesh = replicate (3 * length ds) None"
    by (simp add: mesh_def vertices_Mesh_new vc)
  have small: "3 * length ds < 4294967296"
  proof (rule ccontr)
    assume "\<not> 3 * length ds < 4294967296"
    then have k0: "1431655765 < length ds" and cell: "(4294967296::nat) < 3 * length ds"
      by presburger+
    have "arr ! 4294967296 = None" using beyond cell by (simp add: arr0)
    then have "arr ! (3 * 1431655765 + 1) = None" by simp
    then have unw: "cells3 arr 1431655765 = None" by (rule cells3_unwritten)
    from every_index_referenced[OF k0[unfolded ds_def]] obtain j where
      j: "j < length pts" "T ! j = 1431655765" by (auto simp: T ds_def)
    let ?m1 = "mesh\<lparr>vertices := arr, triangles := map Some T\<rparr>"
    have lenT: "length T = 3 * n" by (simp add: T lenpts)
    have "std_copy T (triangles (mesh\<lparr>vertices := arr\<rparr>)) = Some (map Some T)"
      by (rule std_copy_exact) (simp add: mesh_def Mesh_new_def ntn lenT)
    with fin obtain m2 where c: "computeTriangleNormals_d ?m1 = Some m2"
      by (auto simp: finish_mesh_d_def split: bind_splits)
    have "cells3 (vertices ?m1) (T ! j) \<noteq> None"
      by (rule referenced_vertex_written[OF c])
        (simp_all add: mesh_def Mesh_new_def ntn lenT j(1)[unfolded lenpts])
    with unw j(2) show False by simp
  qed
  have "3 * length vt < 4294967296" using small by (simp add: vt)
  from copy_records_closed[OF this] cp
  have arr: "arr = concat (map flat3 ds)"
    by (simp add: arr0 vt flat_record_table)
  have "mesh\<lparr>vertices := arr\<rparr> =
      (Mesh_new (length (first_seen pts)) (length pts div 3))\<lparr>vertices := concat (map flat3 (first_seen pts))\<rparr>"
    by (simp add: mesh_def vc ntn arr lenpts ds_def)
  with fin have "welded_result pts = Some m"
    by (simp add: welded_result_def T ds_def)
  with big show ?thesis by (simp add: pts_def)
qed

lemma returned_mesh:
  assumes ret: "createMeshFromVertices source = (lg, Some (Ptr m))"
    and nonan: "\<forall>p\<in>set (read_points source). no_nan p"
  shows "\<exists>tn vn. m =
           \<lparr>vertex_count = length (first_seen (read_points source)),
                 vertices = concat (map flat3 (first_seen (read_points source))),
                 triangle_count = u32 (length source div 3),
                 triangles = map (\<lambda>p. Some (first_index (first_seen (read_points source)) p))
                               (read_points source),
                 triangle_normals = tn,
                 vertex_normals = vn\<rparr> \<and>
          length tn = 3 * u32 (length source div 3) \<and> None \<notin> set tn \<and>
          length vn = 3 * length (first_seen (read_points source)) \<and> None \<notin> set vn"
proof -
  from createMeshFromVertices_returned[OF ret nonan]
  have w: "welded_result (read_points source) = Some m" by simp
  from welded_result_Some[OF length_read_points[of source]] w show ?thesis
    by auto
qed

lemma raw_returns:
  assumes "3 \<le> length source" and "3 * length source < 4294967296"
    and "\<forall>p\<in>set (welded_points source). no_nan p"
  shows "\<exists>m. snd (createMeshFromVertices source) = Some (Ptr m)"
  using raw_mesh[OF assms] by blast

section \<open>Lemmas: the raw-triple entry point step by step, and two inputs with NaN\<close>

lemma createMeshFromVertices_steps:
  assumes "3 \<le> length source"
    and "weld_loop source (u32 (length source div 3)) = (S, T)"
    and "sort_by_index (set_elems S) = vt"
    and "copy_records vt 0 (replicate (3 * u32 (length vt)) None) = Some arr"
  shows "createMeshFromVertices source =
     ((if length source mod 3 \<noteq> 0 then [(Error, not_divisible_msg)] else []),
      map_option Ptr
        (finish_mesh_d ((Mesh_new (u32 (length vt)) (u32 (length T div 3)))\<lparr>vertices := arr\<rparr>) T))"
  using assms by (simp add: createMeshFromVertices_def Let_def vertices_Mesh_new)

lemma copy_two:
  "copy_records [\<lparr>x = a1, y = a2, z = a3, index = i\<rparr>, \<lparr>x = b1, y = b2, z = b3, index = j\<rparr>] 0
     (replicate (3 * 2) None) = Some [Some a1, Some a2, Some a3, Some b1, Some b2, Some b3]"
  using copy_records_closed[of "[\<lparr>x = a1, y = a2, z = a3, index = i\<rparr>, \<lparr>x = b1, y = b2, z = b3, index = j\<rparr>]"]
  by (simp add: flat_record_def)

text \<open>
  The lookup of \<open>(NaN, 0, 0)\<close> in the set that holds \<open>(1, 0, 0)\<close>: neither is less than
  the other, so the element is found.
\<close>

lemma weld_nan_second:
  "weld_loop nan_second 1 =
     (Node Black Leaf \<lparr>x = Val 1, y = Val 0, z = Val 0, index = 0\<rparr>
        (Node Red Leaf \<lparr>x = Val 2, y = Val 0, z = Val 0, index = 1\<rparr> Leaf),
      [0, 0, 1])"
  by (simp add: weld_loop_def weld_triple_def weld_vertex_def nan_second_def u32_def Let_def
      set_find_def set_insert_def M_get_insert_unique_pos_def LocalVertexType_of_def
      ltLocalVertexValue_def zero_double_def one_double_def rebuild_def)


lemma finish_second:
  "finish_mesh_d ((Mesh_new 2 1)\<lparr>vertices := [Some 1, Some 0, Some 0, Some (Val 2), Some 0, Some 0]\<rparr>) [0, 0, 1] =
     Some \<lparr>vertex_count = 2,
           vertices = [Some 1, Some 0, Some 0, Some (Val 2), Some 0, Some 0],
           triangle_count = 1,
           triangles = [Some 0, Some 0, Some 1],
           triangle_normals = [Some 0, Some 0, Some 0],
           vertex_normals = [Some 0, Some 0, Some 0, Some 0, Some 0, Some 0]\<rparr>"
  by (simp add: finish_mesh_d_def std_copy_def Mesh_new_def computeTriangleNormals_d_def
      triangle_normal_d_def cells3_def normal_d_def computeVertexNormals_d_def vertex_normal_d_def
      incident_normals_def references_def sum_normal_d_def flat3_def Let_def
      zero_double_def one_double_def upt_rec numeral_eq_Suc)

lemma raw_nan_second:
  "createMeshFromVertices nan_second =
     ([], Some (Ptr \<lparr>vertex_count = 2,
           vertices = [Some 1, Some 0, Some 0, Some (Val 2), Some 0, Some 0],
           triangle_count = 1,
           triangles = [Some 0, Some 0, Some 1],
           triangle_normals = [Some 0, Some 0, Some 0],
           vertex_normals = [Some 0, Some 0, Some 0, Some 0, Some 0, Some 0]\<rparr>))"
proof -
  let ?vt = "[\<lparr>x = Val 1, y = Val 0, z = Val 0, index = 0\<rparr>, \<lparr>x = Val 2, y = Val 0, z = Val 0, index = 1\<rparr>]"
  have len: "3 \<le> length nan_second" by (simp add: nan_second_def)
  have w: "weld_loop nan_second (u32 (length nan_second div 3)) =
     (Node Black Leaf \<lparr>x = Val 1, y = Val 0, z = Val 0, index = 0\<rparr>
        (Node Red Leaf \<lparr>x = Val 2, y = Val 0, z = Val 0, index = 1\<rparr> Leaf),
      [0, 0, 1])"
    using weld_nan_second by (simp add: nan_second_def u32_def)
  have srt: "sort_by_index (set_elems (Node Black Leaf \<lparr>x = Val 1, y = Val 0, z = Val 0, index = 0\<rparr>
        (Node Red Leaf \<lparr>x = Val 2, y = Val 0, z = Val 0, index = 1\<rparr> Leaf))) = ?vt"
    by (simp add: sort_by_index_def ltLocalVertexIndex_def)
  have cp: "copy_records ?vt 0 (replicate (3 * u32 (length ?vt)) None) =
      Some [Some 1, Some 0, Some 0, Some (Val 2), Some 0, Some 0]"
    using copy_two[of "Val 1" "Val 0" "Val 0" 0 "Val 2" "Val 0" "Val 0" 1]
    by (simp add: u32_def zero_double_def one_double_def)
  have m: "length nan_second mod 3 = 0" "u32 (length ?vt) = 2" "u32 (length [0::nat, 0, 1] div 3) = 1"
    by (simp_all add: nan_second_def u32_def)
  show ?thesis
    unfolding createMeshFromVertices_steps[OF len w srt cp] m finish_second by simp
qed


section \<open>Lemmas: the mesh before the normals\<close>

lemma createMeshFromVertices_filled:
  assumes "3 \<le> length source"
  shows "snd (createMeshFromVertices source) =
     map_option Ptr (Option.bind (filled_mesh source)
        (\<lambda>m. Option.bind (computeTriangleNormals_d m) computeVertexNormals_d))"
proof -
  obtain S T where ST: "weld_loop source (u32 (length source div 3)) = (S, T)"
    by (cases "weld_loop source (u32 (length source div 3))") auto
  show ?thesis
    using assms
    by (simp add: createMeshFromVertices_def filled_mesh_def Let_def ST finish_mesh_d_def
        split: bind_splits)
qed






section \<open>The claims\<close>

subsection \<open>Welding in first-discovery order\<close>

text \<open>
  Claim C1 says that a new point receives the current count of distinct vertices, and
  that the vertices of the mesh are the distinct points in order of first discovery.
  On the three points \<open>(1, 0, 0)\<close>, \<open>(NaN, 0, 0)\<close>, \<open>(2, 0, 0)\<close> the second point is equal
  to no point before it, and one distinct point has been seen; yet it receives the index
  0 of the first point, and the mesh has 2 vertices for 3 distinct points. No comparison
  with a NaN is true, so to the comparator neither of the first two points is less than
  the other, and the lookup takes them for the same.
\<close>

theorem C1_nan_counterexample:
  "fst (createMeshFromVertices nan_second) = [] \<and>
   map_option (map_ptr vertex_count) (snd (createMeshFromVertices nan_second)) = Some (Ptr 2) \<and>
   map_option (map_ptr triangles) (snd (createMeshFromVertices nan_second)) =
     Some (Ptr [Some 0, Some 0, Some 1]) \<and>
   map_option (map_ptr vertices) (snd (createMeshFromVertices nan_second)) =
     Some (Ptr [Some 1, Some 0, Some 0, Some (Val 2), Some 0, Some 0]) \<and>
   nan_second ! 1 \<notin> set (take 1 nan_second) \<and>
   card (set (take 1 nan_second)) = 1 \<and>
   card (set nan_second) = 3"
proof -
  have "nan_second ! 1 \<notin> set (take 1 nan_second)"
    by (simp add: nan_second_def one_double_def)
  moreover have "card (set (take 1 nan_second)) = 1"
    by (simp add: nan_second_def)
  moreover have "card (set nan_second) = 3"
    unfolding card_set by (simp add: nan_second_def zero_double_def one_double_def)
  ultimately show ?thesis unfolding raw_nan_second by simp
qed

text \<open>
  Claim C1, amended. For the raw-triple entry point on points none of whose coordinates
  is NaN, welding assigns indices in first-discovery order. Let \<open>pts\<close> be the points the
  loop reads, in order (\<open>read_points source\<close>). Whenever a mesh is returned, its vertex
  count is the number of distinct points of \<open>pts\<close>, and its vertex at position \<open>i\<close> is the
  \<open>i\<close>-th distinct point in order of first occurrence. The index stored for the \<open>k\<close>-th
  point equals the index stored for every earlier equal point; a point not seen before
  \<open>k\<close> gets the number of distinct points seen so far; and the index stored for a point
  is the position of a vertex equal to it. For an input of at least 3 points whose size
  is in the range of the 32-bit counters of the loops (\<open>3 * length source < 2 ^ 32\<close>) a
  mesh is returned, and the points read are the whole triples of the input. (Without
  NaN, two points are equal exactly when their coordinates are equal as
  floating-point numbers.)
\<close>

theorem C1_first_discovery_order:
  assumes nonan: "\<forall>p\<in>set source. no_nan p"
  shows "(createMeshFromVertices source = (lg, Some (Ptr m)) \<longrightarrow>
      vertex_count m = length (first_seen (read_points source)) \<and>
      (\<forall>i<vertex_count m.
         cells3 (vertices m) i = Some (first_seen (read_points source) ! i)) \<and>
      length (triangles m) = length (read_points source) \<and>
      (\<forall>k<length (read_points source).
         (\<forall>j<k. read_points source ! j = read_points source ! k \<longrightarrow>
                triangles m ! k = triangles m ! j) \<and>
         (read_points source ! k \<notin> set (take k (read_points source)) \<longrightarrow>
            triangles m ! k = Some (card (set (take k (read_points source))))) \<and>
         (\<exists>i<vertex_count m. triangles m ! k = Some i \<and>
            cells3 (vertices m) i = Some (read_points source ! k)))) \<and>
   (3 \<le> length source \<and> 3 * length source < 4294967296 \<longrightarrow>
      (\<exists>r. snd (createMeshFromVertices source) = Some (Ptr r)) \<and>
      read_points source = take (3 * (length source div 3)) source)"
proof (rule conjI)
  let ?pts = "read_points source"
  let ?ds = "first_seen ?pts"
  have rd: "\<forall>p\<in>set (read_points source). no_nan p"
    using nonan read_points_subset[of source] by blast
  show "createMeshFromVertices source = (lg, Some (Ptr m)) \<longrightarrow>
      vertex_count m = length ?ds \<and>
      (\<forall>i<vertex_count m. cells3 (vertices m) i = Some (?ds ! i)) \<and>
      length (triangles m) = length ?pts \<and>
      (\<forall>k<length ?pts.
         (\<forall>j<k. ?pts ! j = ?pts ! k \<longrightarrow> triangles m ! k = triangles m ! j) \<and>
         (?pts ! k \<notin> set (take k ?pts) \<longrightarrow>
            triangles m ! k = Some (card (set (take k ?pts)))) \<and>
         (\<exists>i<vertex_count m. triangles m ! k = Some i \<and>
            cells3 (vertices m) i = Some (?pts ! k)))"
  proof (rule impI)
    assume ret: "createMeshFromVertices source = (lg, Some (Ptr m))"
    from returned_mesh[OF ret rd] obtain tn vn where
      m: "m = \<lparr>vertex_count = length ?ds,
                 vertices = concat (map flat3 ?ds),
                 triangle_count = u32 (length source div 3),
                 triangles = map (\<lambda>p. Some (first_index ?ds p)) ?pts,
                 triangle_normals = tn,
                 vertex_normals = vn\<rparr>" by blast
    have vcm: "vertex_count m = length ?ds"
      and vm: "vertices m = concat (map flat3 ?ds)"
      and tm: "triangles m = map (\<lambda>p. Some (first_index ?ds p)) ?pts"
      by (simp_all add: m)
    have v: "\<forall>i<vertex_count m. cells3 (vertices m) i = Some (?ds ! i)"
      unfolding vcm vm by (simp add: cells3_concat_flat3)
    have t: "(\<forall>j<k. ?pts ! j = ?pts ! k \<longrightarrow> triangles m ! k = triangles m ! j) \<and>
           (?pts ! k \<notin> set (take k ?pts) \<longrightarrow> triangles m ! k = Some (card (set (take k ?pts)))) \<and>
           (\<exists>i<vertex_count m. triangles m ! k = Some i \<and>
                 cells3 (vertices m) i = Some (?pts ! k))"
      if k: "k < length ?pts" for k
    proof (intro conjI)
      show "\<forall>j<k. ?pts ! j = ?pts ! k \<longrightarrow> triangles m ! k = triangles m ! j"
        unfolding tm using k by simp
      show "?pts ! k \<notin> set (take k ?pts) \<longrightarrow> triangles m ! k = Some (card (set (take k ?pts)))"
        unfolding tm using k by (simp add: first_index_first_seen_new)
      have mem: "?pts ! k \<in> set ?ds" using k by simp
      have "first_index ?ds (?pts ! k) < length ?ds" using mem by (rule first_index_less)
      moreover have "cells3 (concat (map flat3 ?ds)) (first_index ?ds (?pts ! k)) = Some (?pts ! k)"
        using mem by (simp add: cells3_concat_flat3 first_index_less nth_first_index)
      ultimately show "\<exists>i<vertex_count m. triangles m ! k = Some i \<and>
                 cells3 (vertices m) i = Some (?pts ! k)"
        unfolding tm vcm vm using k by simp
    qed
    have lt: "length (triangles m) = length ?pts" by (simp add: tm)
    from vcm v lt t show "vertex_count m = length ?ds \<and>
      (\<forall>i<vertex_count m. cells3 (vertices m) i = Some (?ds ! i)) \<and>
      length (triangles m) = length ?pts \<and>
      (\<forall>k<length ?pts.
         (\<forall>j<k. ?pts ! j = ?pts ! k \<longrightarrow> triangles m ! k = triangles m ! j) \<and>
         (?pts ! k \<notin> set (take k ?pts) \<longrightarrow>
            triangles m ! k = Some (card (set (take k ?pts)))) \<and>
         (\<exists>i<vertex_count m. triangles m ! k = Some i \<and>
            cells3 (vertices m) i = Some (?pts ! k)))"
      by blast
  qed
next
  show "3 \<le> length source \<and> 3 * length source < 4294967296 \<longrightarrow>
      (\<exists>r. snd (createMeshFromVertices source) = Some (Ptr r)) \<and>
      read_points source = take (3 * (length source div 3)) source"
  proof (rule impI)
    assume rng: "3 \<le> length source \<and> 3 * length source < 4294967296"
    have wp: "\<forall>p\<in>set (welded_points source). no_nan p"
      using nonan set_take_subset[of "3 * (length source div 3)" source]
      unfolding welded_points_def by blast
    from rng raw_returns[OF _ _ wp] read_points_in_range[of source]
    show "(\<exists>r. snd (createMeshFromVertices source) = Some (Ptr r)) \<and>
      read_points source = take (3 * (length source div 3)) source"
      by (simp add: welded_points_def)
  qed
qed

text \<open>
  The theorem at \<open>example_points\<close>: four vertices; the fourth point repeats the second
  and reuses its index; the third and fifth points are new and get the indices 2 and 3;
  vertex 3 is the fifth point.
\<close>

theorem C1_first_discovery_order_witness:
  "\<exists>m. createMeshFromVertices example_points = ([], Some (Ptr m)) \<and>
     vertex_count m = 4 \<and>
     triangles m ! 3 = triangles m ! 1 \<and>
     triangles m ! 2 = Some 2 \<and>
     triangles m ! 4 = Some 3 \<and>
     cells3 (vertices m) 3 = Some (Val (- 5), 0, 0)"
proof -
  have len: "3 \<le> length example_points \<and> 3 * length example_points < 4294967296"
    by (simp add: example_points_def)
  have lg: "fst (createMeshFromVertices example_points) = []"
    by (simp add: createMeshFromVertices_def example_points_def Let_def split_beta)
  have tk: "take (3 * (length example_points div 3)) example_points = example_points"
    by (simp add: example_points_def)
  have ds: "first_seen example_points = [(Val 3, 0, 0), (1, 0, 0), (0, 1, 0), (Val (- 5), 0, 0)]"
    by (simp add: example_points_def zero_double_def one_double_def)
  have nn: "\<forall>p\<in>set example_points. no_nan p"
    by (simp add: example_points_def no_nan_def zero_double_def one_double_def)
  from C1_first_discovery_order[OF nn, THEN conjunct2, THEN mp, OF len]
  obtain m where sm: "snd (createMeshFromVertices example_points) = Some (Ptr m)"
    and pts: "read_points example_points = example_points"
    unfolding tk by blast
  from lg sm have ret: "createMeshFromVertices example_points = ([], Some (Ptr m))"
    by (simp add: prod_eq_iff)
  from C1_first_discovery_order[OF nn, of "[]" m, THEN conjunct1, THEN mp, OF ret]
  have m: "vertex_count m = length (first_seen example_points)"
      "\<forall>i<vertex_count m. cells3 (vertices m) i = Some (first_seen example_points ! i)"
    and tr: "\<forall>k<length example_points.
              (\<forall>j<k. example_points ! j = example_points ! k \<longrightarrow>
                     triangles m ! k = triangles m ! j) \<and>
              (example_points ! k \<notin> set (take k example_points) \<longrightarrow>
                 triangles m ! k = Some (card (set (take k example_points))))"
    unfolding pts by blast+
  have vc: "vertex_count m = 4" using m(1) by (simp add: ds)
  have "cells3 (vertices m) 3 = Some (first_seen example_points ! 3)"
    using m(2) vc by simp
  then have v3: "cells3 (vertices m) 3 = Some (Val (- 5), 0, 0)" by (simp add: ds)
  have t3: "triangles m ! 3 = triangles m ! 1"
    using tr[rule_format, of 3] by (simp add: example_points_def)
  have "card (set (take 2 example_points)) = 2"
    unfolding card_set by (simp add: example_points_def)
  then have t2: "triangles m ! 2 = Some 2"
    using tr[rule_format, of 2] by (simp add: example_points_def)
  have "card (set (take 4 example_points)) = 3"
    unfolding card_set by (simp add: example_points_def)
  then have t4: "triangles m ! 4 = Some 3"
    using tr[rule_format, of 4] by (simp add: example_points_def)
  from ret vc t3 t2 t4 v3 show ?thesis by blast
qed

text \<open>
  Claim C2. On the three points \<open>(0,0,0)\<close>, \<open>(1,0,0)\<close>, \<open>(0,0,0)\<close> the raw-triple entry
  point logs nothing and returns a mesh with exactly 2 vertices and 1 triangle whose
  index triple is \<open>(0, 1, 0)\<close>.
\<close>

theorem C2_degenerate_triangle:
  "\<exists>m. createMeshFromVertices [(0, 0, 0), (1, 0, 0), (0, 0, 0)] = ([], Some (Ptr m)) \<and>
     vertex_count m = 2 \<and> triangle_count m = 1 \<and>
     triangles m = [Some 0, Some 1, Some 0] \<and>
     vertices m = [Some 0, Some 0, Some 0, Some 1, Some 0, Some 0]"
proof -
  let ?src = "[(0, 0, 0), (1, 0, 0), (0, 0, 0)] :: double Vector3 list"
  have pts: "welded_points ?src = ?src" by (simp add: welded_points_def)
  have "length ?src = 3 * 1" by simp
  from welded_result_Some[OF this] obtain tn vn where
    "welded_result ?src =
           Some \<lparr>vertex_count = length (first_seen ?src),
                 vertices = concat (map flat3 (first_seen ?src)),
                 triangle_count = 1,
                 triangles = map (\<lambda>p. Some (first_index (first_seen ?src) p)) ?src,
                 triangle_normals = tn,
                 vertex_normals = vn\<rparr>" by blast
  then have "welded_result ?src =
           Some \<lparr>vertex_count = 2,
                 vertices = [Some 0, Some 0, Some 0, Some 1, Some 0, Some 0],
                 triangle_count = 1,
                 triangles = [Some 0, Some 1, Some 0],
                 triangle_normals = tn,
                 vertex_normals = vn\<rparr>"
    by (simp add: flat3_def)
  moreover have "createMeshFromVertices ?src = ([], map_option Ptr (welded_result (welded_points ?src)))"
  proof -
    have "\<forall>p\<in>set (welded_points ?src). no_nan p"
      unfolding pts by (simp add: no_nan_def)
    from createMeshFromVertices_welded[OF _ _ this] show ?thesis by simp
  qed
  ultimately show ?thesis by (simp add: pts)
qed

subsection \<open>The mesh invariant\<close>




subsection \<open>Too few points\<close>

text \<open>
  Claim C5. Given fewer than 3 points, the raw-triple entry point returns the null
  pointer: it returns normally, and it logs nothing.
\<close>

theorem C5_fewer_than_three_points:
  "length source < 3 \<Longrightarrow> createMeshFromVertices source = ([], Some NULL)"
  by (simp add: createMeshFromVertices_def)

text \<open>The theorem at two points.\<close>

theorem C5_fewer_than_three_points_witness:
  "length [(0, 0, 0), (1, 0, 0) :: double Vector3] < 3 \<and>
   createMeshFromVertices [(0, 0, 0), (1, 0, 0)] = ([], Some NULL)"
  using C5_fewer_than_three_points[of "[(0, 0, 0), (1, 0, 0)]"] by simp

subsection \<open>A point count that is not a multiple of three\<close>




subsection \<open>Scene flattening\<close>

text \<open>
  Claim C3. At a node with local transform \<open>local\<close> under the cumulative transform
  \<open>parent\<close> of its parent, the cumulative transform is the product
  \<open>mat_mul parent local\<close>: when the node's mesh indices are in the scene, the node
  appends, for each vertex \<open>p\<close> of its meshes in order, the image of \<open>p\<close> under that
  product multiplied component-wise by the scale triple, and its children are then
  traversed in order with the product as their parent transform. For an affine
  \<open>local\<close> the product maps \<open>p\<close> to \<open>parent (local p)\<close>: the local transform is applied
  first. For the root with identity transform and no geometry whose single child holds
  the vertex \<open>(1, 0, 0)\<close> under a translation by \<open>(2, 0, 0)\<close>, with the identity scale, the
  flattened vertex list is \<open>[(3, 0, 0)]\<close>.
\<close>

theorem C3_cumulative_transform:
  "((\<forall>k\<in>set ms. k < length (mMeshes scene)) \<longrightarrow>
      map_option fst (extractMeshData scene (aiNode local ms []) parent scale (vs, ts)) =
        Some (vs @ map (\<lambda>p. cwise_mul (mat_apply (mat_mul parent local) p) scale)
                       (node_vertices scene ms))) \<and>
   (affine local \<longrightarrow>
      mat_apply (mat_mul parent local) p = mat_apply parent (mat_apply local p)) \<and>
   extractMeshData scene (aiNode local ms cs) parent scale acc =
     Option.bind (extractMeshData scene (aiNode local ms []) parent scale acc)
       (extractChildren scene cs (mat_mul parent local) scale) \<and>
   extractChildren scene (c # cs) transform scale acc =
     Option.bind (extractMeshData scene c transform scale acc)
       (extractChildren scene cs transform scale) \<and>
   extractMeshData example_scene (mRootNode example_scene) aiMatrix4x4_identity one_scale ([], []) =
     Some ([(3, 0, 0)], [])"
proof (intro conjI impI)
  assume valid: "\<forall>k\<in>set ms. k < length (mMeshes scene)"
  from extract_node_meshes_vertices[OF valid, of "mat_mul parent local" scale vs ts] obtain ts' where
    "extract_node_meshes scene (mat_mul parent local) scale ms (vs, ts) =
      Some (vs @ map (scaled_vertex (mat_mul parent local) scale) (node_vertices scene ms), ts')"
    by blast
  then show "map_option fst (extractMeshData scene (aiNode local ms []) parent scale (vs, ts)) =
        Some (vs @ map (\<lambda>p. cwise_mul (mat_apply (mat_mul parent local) p) scale)
                       (node_vertices scene ms))"
    by (simp add: Let_def scaled_vertex_cwise)
next
  assume "affine local"
  then show "mat_apply (mat_mul parent local) p = mat_apply parent (mat_apply local p)"
    by (rule mat_apply_mat_mul)
next
  show "extractMeshData scene (aiNode local ms cs) parent scale acc =
     Option.bind (extractMeshData scene (aiNode local ms []) parent scale acc)
       (extractChildren scene cs (mat_mul parent local) scale)"
    by (rule extractMeshData_children)
next
  show "extractChildren scene (c # cs) transform scale acc =
     Option.bind (extractMeshData scene c transform scale acc)
       (extractChildren scene cs transform scale)"
    by (simp split: option.splits)
next
  show "extractMeshData example_scene (mRootNode example_scene) aiMatrix4x4_identity one_scale ([], []) =
     Some ([(3, 0, 0)], [])"
    by (simp add: example_scene_def example_child_def aiMatrix4x4_identity_def translation_def
        one_scale_def extract_mesh_def scaled_vertex_def Let_def u32_def)
qed

text \<open>
  The theorem at the child of the example scene under the identity: its translation is
  affine, so its vertex \<open>(1, 0, 0)\<close> is translated first and lands at \<open>(3, 0, 0)\<close>.
\<close>

theorem C3_cumulative_transform_witness:
  "map_option fst (extractMeshData example_scene example_child aiMatrix4x4_identity one_scale ([], [])) =
     Some [cwise_mul (mat_apply aiMatrix4x4_identity (mat_apply (translation 2 0 0) (1, 0, 0))) one_scale] \<and>
   cwise_mul (mat_apply aiMatrix4x4_identity (mat_apply (translation 2 0 0) (1, 0, 0))) one_scale = (3, 0, 0)"
proof -
  have aff: "affine (translation 2 0 0)" by (simp add: translation_def)
  have valid: "\<forall>k\<in>set [0]. k < length (mMeshes example_scene)"
    by (simp add: example_scene_def)
  have nv: "node_vertices example_scene [0] = [(1, 0, 0)]"
    by (simp add: node_vertices_def example_scene_def)
  note inst = C3_cumulative_transform[of "[0]" example_scene "translation 2 0 0"
      aiMatrix4x4_identity one_scale "[]" "[]" "(1, 0, 0)"]
  from inst[THEN conjunct1, THEN mp, OF valid]
  have a: "map_option fst (extractMeshData example_scene example_child aiMatrix4x4_identity one_scale ([], [])) =
        Some [cwise_mul (mat_apply (mat_mul aiMatrix4x4_identity (translation 2 0 0)) (1, 0, 0)) one_scale]"
    by (simp add: nv example_child_def)
  from inst[THEN conjunct2, THEN conjunct1, THEN mp, OF aff]
  have b: "mat_apply (mat_mul aiMatrix4x4_identity (translation 2 0 0)) (1, 0, 0) =
      mat_apply aiMatrix4x4_identity (mat_apply (translation 2 0 0) (1, 0, 0))" .
  have c: "cwise_mul (mat_apply aiMatrix4x4_identity (mat_apply (translation 2 0 0) (1, 0, 0))) one_scale = (3, 0, 0)"
    by (simp add: translation_def aiMatrix4x4_identity_def one_scale_def)
  from a b c show ?thesis by simp
qed

text \<open>
  Claim C7. Let the traversal of the scene yield the vertex list \<open>vs\<close> and the triangle
  list \<open>ts\<close>. If \<open>vs\<close> is empty, createMeshFromAsset returns the null pointer (in a scene
  that has meshes, after the warning that there are no vertices). If \<open>vs\<close> is not empty
  and \<open>ts\<close> is, it returns the null pointer after the warning that there are no
  triangles. If both are non-empty, the outcome is that of the pre-indexed entry point
  on \<open>vs\<close> and \<open>ts\<close> as they are, with nothing logged; and a mesh is returned only when
  both are non-empty, and then it is the mesh the pre-indexed entry point builds from
  \<open>vs\<close> and \<open>ts\<close>.
\<close>

theorem C7_scene_without_geometry:
  "extractMeshData scene (mRootNode scene) aiMatrix4x4_identity scale ([], []) = Some (vs, ts) \<longrightarrow>
     (vs = [] \<longrightarrow> snd (createMeshFromAsset scene scale resource_name) = Some NULL) \<and>
     (vs \<noteq> [] \<and> ts = [] \<longrightarrow>
        createMeshFromAsset scene scale resource_name =
          ([(Warn, ''There are no triangles in the scene '' @ resource_name)], Some NULL)) \<and>
     (HasMeshes scene \<and> vs = [] \<longrightarrow>
        createMeshFromAsset scene scale resource_name =
          ([(Warn, ''There are no vertices in the scene '' @ resource_name)], Some NULL)) \<and>
     (vs \<noteq> [] \<and> ts \<noteq> [] \<longrightarrow>
        createMeshFromAsset scene scale resource_name =
          ([], map_option Ptr (createMeshFromVertices_indexed vs ts))) \<and>
     (\<forall>m. snd (createMeshFromAsset scene scale resource_name) = Some (Ptr m) \<longrightarrow>
        vs \<noteq> [] \<and> ts \<noteq> [] \<and> createMeshFromVertices_indexed vs ts = Some m)"
proof (intro impI)
  assume e: "extractMeshData scene (mRootNode scene) aiMatrix4x4_identity scale ([], []) = Some (vs, ts)"
  have h: "vs \<noteq> [] \<Longrightarrow> HasMeshes scene"
    using traversal_nonempty_has_meshes[OF e] .
  show "(vs = [] \<longrightarrow> snd (createMeshFromAsset scene scale resource_name) = Some NULL) \<and>
     (vs \<noteq> [] \<and> ts = [] \<longrightarrow>
        createMeshFromAsset scene scale resource_name =
          ([(Warn, ''There are no triangles in the scene '' @ resource_name)], Some NULL)) \<and>
     (HasMeshes scene \<and> vs = [] \<longrightarrow>
        createMeshFromAsset scene scale resource_name =
          ([(Warn, ''There are no vertices in the scene '' @ resource_name)], Some NULL)) \<and>
     (vs \<noteq> [] \<and> ts \<noteq> [] \<longrightarrow>
        createMeshFromAsset scene scale resource_name =
          ([], map_option Ptr (createMeshFromVertices_indexed vs ts))) \<and>
     (\<forall>m. snd (createMeshFromAsset scene scale resource_name) = Some (Ptr m) \<longrightarrow>
        vs \<noteq> [] \<and> ts \<noteq> [] \<and> createMeshFromVertices_indexed vs ts = Some m)"
    using e h by (auto simp: createMeshFromAsset_def)
qed

text \<open>
  The theorem at \<open>triangle_scene\<close>: the three vertices and the face are handed over as
  they are, and a mesh of 3 vertices and 1 triangle comes back.
\<close>

theorem C7_scene_without_geometry_witness:
  "createMeshFromAsset triangle_scene one_scale ''t'' =
     ([], map_option Ptr (createMeshFromVertices_indexed [(0, 0, 0), (1, 0, 0), (0, 1, 0)] [0, 1, 2])) \<and>
   (\<exists>m. snd (createMeshFromAsset triangle_scene one_scale ''t'') = Some (Ptr m) \<and>
        vertex_count m = 3 \<and> triangle_count m = 1 \<and> triangles m = [Some 0, Some 1, Some 2])"
proof -
  have h: "[(0, 0, 0), (1, 0, 0), (0::real, 1::real, 0::real)] \<noteq> [] \<and> [0, 1, 2::nat] \<noteq> []"
    by simp
  note c = C7_scene_without_geometry[of triangle_scene one_scale "[(0, 0, 0), (1, 0, 0), (0, 1, 0)]"
      "[0, 1, 2]" "''t''", THEN mp, OF extract_triangle_scene]
  have a: "createMeshFromAsset triangle_scene one_scale ''t'' =
     ([], map_option Ptr (createMeshFromVertices_indexed [(0, 0, 0), (1, 0, 0), (0, 1, 0)] [0, 1, 2]))"
    using c[THEN conjunct2, THEN conjunct2, THEN conjunct2, THEN conjunct1] h
    by (rule mp)
  have "\<exists>tn vn. createMeshFromVertices_indexed [(0, 0, 0), (1, 0, 0), (0, 1, 0)] [0, 1, 2] =
            Some \<lparr>vertex_count = length [(0, 0, 0), (1, 0, 0), (0::real, 1::real, 0::real)],
                  vertices = concat (map flat3 [(0, 0, 0), (1, 0, 0), (0, 1, 0)]),
                  triangle_count = 1, triangles = map Some [0, 1, 2],
                  triangle_normals = tn, vertex_normals = vn\<rparr> \<and>
          length tn = 3 * 1 \<and> None \<notin> set tn \<and>
          length vn = 3 * length [(0, 0, 0), (1, 0, 0), (0::real, 1::real, 0::real)] \<and> None \<notin> set vn"
    by (rule createMeshFromVertices_indexed_Some) simp_all
  then obtain tn vn where "createMeshFromVertices_indexed [(0, 0, 0), (1, 0, 0), (0, 1, 0)] [0, 1, 2] =
            Some \<lparr>vertex_count = 3,
                  vertices = concat (map flat3 [(0, 0, 0), (1, 0, 0), (0, 1, 0)]),
                  triangle_count = 1, triangles = [Some 0, Some 1, Some 2],
                  triangle_normals = tn, vertex_normals = vn\<rparr>"
    by auto
  with a show ?thesis by (simp del: map_option_eq_Some)
qed

subsection \<open>The default scale\<close>

text \<open>
  Claim C8. The default scale is the constant \<open>(1, 1, 1)\<close>: each entry point without a
  scale argument returns what the entry point with a scale argument returns at
  \<open>(1, 1, 1)\<close>, for every resource, buffer, size, hint and scene, and whatever the
  retriever and the importer do.
\<close>

theorem C8_default_scale_is_identity:
  "createMeshFromResource_default retriever importer resource =
     createMeshFromResource retriever importer resource (1, 1, 1) \<and>
   createMeshFromBinary_default importer buf sz assimp_hint =
     createMeshFromBinary importer buf sz (1, 1, 1) assimp_hint \<and>
   createMeshFromAsset_default scene resource_name =
     createMeshFromAsset scene (1, 1, 1) resource_name"
  by (simp add: createMeshFromResource_default_def createMeshFromBinary_default_def
      createMeshFromAsset_default_def one_scale_def)

subsection \<open>Normals\<close>



subsection \<open>The box\<close>

text \<open>
  Claim C10. For every box, whatever the sign of its extents, createMeshFromShape
  returns a mesh with exactly 8 vertices and 12 triangles; the vertex coordinates are
  plus or minus half the extents, in the fixed order of \<open>box_corners\<close>; the triangle
  indices are the table \<open>tri\<close>, each below 8; and the normals are computed.
\<close>

theorem C10_box_mesh:
  "\<exists>m. createMeshFromShape box = Some m \<and>
     vertex_count m = 8 \<and> triangle_count m = 12 \<and>
     vertices m =
       map Some (box_corners (fst (size_box box) / 2) (fst (snd (size_box box)) / 2)
                   (snd (snd (size_box box)) / 2)) \<and>
     triangles m = map Some tri \<and>
     list_all (\<lambda>k. k < 8) tri \<and>
     length (triangle_normals m) = 36 \<and> None \<notin> set (triangle_normals m) \<and>
     length (vertex_normals m) = 24 \<and> None \<notin> set (vertex_normals m)"
proof -
  obtain s0 s1 s2 where sz: "size_box box = (s0, s1, s2)"
    by (cases "size_box box") auto
  let ?arr = "map Some (box_corners (s0 / 2) (s1 / 2) (s2 / 2))"
  let ?mesh = "(Mesh_new 8 12)\<lparr>vertices := ?arr\<rparr>"
  have "\<exists>tn vn. finish_mesh ?mesh tri =
            Some (?mesh\<lparr>triangles := map Some tri, triangle_normals := tn, vertex_normals := vn\<rparr>) \<and>
          length tn = 3 * triangle_count ?mesh \<and> None \<notin> set tn \<and>
          length vn = 3 * vertex_count ?mesh \<and> None \<notin> set vn"
  proof (rule finish_mesh_Some)
    show "length tri = 3 * triangle_count ?mesh" by (simp add: tri_def Mesh_new_def)
    show "length (triangles ?mesh) = 3 * triangle_count ?mesh" by (simp add: Mesh_new_def)
    show "length (vertices ?mesh) = 3 * vertex_count ?mesh" by (simp add: Mesh_new_def box_corners_def)
    show "None \<notin> set (vertices ?mesh)" by auto
    show "\<forall>k\<in>set tri. k < vertex_count ?mesh" using tri_in_range by (simp add: Mesh_new_def)
  qed
  then obtain tn vn where fin: "finish_mesh ?mesh tri =
            Some (?mesh\<lparr>triangles := map Some tri, triangle_normals := tn, vertex_normals := vn\<rparr>)"
    and n: "length tn = 36" "None \<notin> set tn" "length vn = 24" "None \<notin> set vn"
    by (auto simp: Mesh_new_def)
  have "createMeshFromShape box =
      Some (?mesh\<lparr>triangles := map Some tri, triangle_normals := tn, vertex_normals := vn\<rparr>)"
    unfolding createMeshFromShape_def
    by (simp only: sz prod.case Let_def vertices_box Option.bind.simps fin)
  moreover have "list_all (\<lambda>k. k < 8) tri" using tri_in_range by (simp add: list_all_iff)
  ultimately show ?thesis using n by (simp add: Mesh_new_def sz)
qed

text \<open>The theorem at a box with a negative and a zero extent.\<close>

theorem C10_box_mesh_witness:
  "\<exists>m. createMeshFromShape \<lparr>size_box = (- 2, 0, 4)\<rparr> = Some m \<and>
     vertex_count m = 8 \<and> triangle_count m = 12 \<and>
     vertices m = map Some (box_corners (- 1) 0 2) \<and>
     triangles m = map Some tri"
  using C10_box_mesh[of "\<lparr>size_box = (- 2, 0, 4)\<rparr>"] by auto

end
